theory Spec2Isabelle
  imports Main "HOL-Library.Multiset" "HOL-Library.Sublist"
begin

section \<open>Python values\<close>

text \<open>
  The program is untyped Python working on decoded JSON. A value is one of the seven
  shapes \<open>response.json()\<close> can produce. A \<open>str\<close> is a \<open>string\<close> whose characters
  stand for code points below 256; a \<open>dict\<close> is the list of its items in insertion
  order (keys distinct, \<open>map_of\<close> reads an item). Floating point is not computed with:
  a float is carried by the two observations the program makes of it, whether it is zero
  (its truth value) and the text \<open>repr\<close> prints for it.
\<close>

datatype pyfloat = Float (is_zero: bool) (float_repr: string)

datatype pyobj =
    PyNone
  | PyBool bool
  | PyInt int
  | PyFloat pyfloat
  | PyStr string
  | PyList "pyobj list"
  | PyDict "(string \<times> pyobj) list"

text \<open>
  The exceptions the program can meet, and the two classes its handlers test for. The
  error \<open>response.json()\<close> raises on a body that is not JSON belongs to both classes
  (\<open>requests\<close> 2.27 and later: its \<open>JSONDecodeError\<close> is a \<open>RequestException\<close> and a
  \<open>ValueError\<close>), so the first handler, of line 86, is the one that takes it.
\<close>

datatype py_exception =
    ConnectionError
  | Timeout
  | HTTPError nat
  | JSONDecodeError
  | AttributeError
  | TypeError

fun is_RequestException :: "py_exception \<Rightarrow> bool" where
  "is_RequestException ConnectionError = True"
| "is_RequestException Timeout = True"
| "is_RequestException (HTTPError status) = True"
| "is_RequestException JSONDecodeError = True"
| "is_RequestException e = False"

fun is_ValueError :: "py_exception \<Rightarrow> bool" where
  "is_ValueError JSONDecodeError = True"
| "is_ValueError e = False"

text \<open>Truth value testing: \<open>if v:\<close> and \<open>not v\<close>.\<close>

fun truthy :: "pyobj \<Rightarrow> bool" where
  "truthy PyNone = False"
| "truthy (PyBool b) = b"
| "truthy (PyInt i) = (i \<noteq> 0)"
| "truthy (PyFloat f) = (\<not> is_zero f)"
| "truthy (PyStr s) = (s \<noteq> [])"
| "truthy (PyList xs) = (xs \<noteq> [])"
| "truthy (PyDict kvs) = (kvs \<noteq> [])"

fun isinstance_list :: "pyobj \<Rightarrow> bool" where
  "isinstance_list (PyList xs) = True"
| "isinstance_list v = False"

text \<open>\<open>len(v)\<close>: only a list, a dict and a str have a length.\<close>

fun len :: "pyobj \<Rightarrow> py_exception + nat" where
  "len (PyList xs) = Inr (length xs)"
| "len (PyDict kvs) = Inr (length kvs)"
| "len (PyStr s) = Inr (length s)"
| "len v = Inl TypeError"

text \<open>\<open>d.get(key, default)\<close>: a method of dicts only.\<close>

fun get :: "pyobj \<Rightarrow> string \<Rightarrow> pyobj \<Rightarrow> py_exception + pyobj" where
  "get (PyDict kvs) k d = Inr (case map_of kvs k of Some v \<Rightarrow> v | None \<Rightarrow> d)"
| "get v k d = Inl AttributeError"

text \<open>
  What a \<open>for\<close> loop walks: the elements of a list, the keys of a dict, the
  characters of a str; nothing else here is iterable.
\<close>

fun iterate :: "pyobj \<Rightarrow> py_exception + pyobj list" where
  "iterate (PyList xs) = Inr xs"
| "iterate (PyDict kvs) = Inr (map (\<lambda>kv. PyStr (fst kv)) kvs)"
| "iterate (PyStr s) = Inr (map (\<lambda>c. PyStr [c]) s)"
| "iterate v = Inl TypeError"

subsection \<open>Strings\<close>

text \<open>
  \<open>str.isspace\<close> on the code points below 256: tab to carriage return, the four
  separators 0x1C to 0x1F, space, NEL (0x85) and the no-break space (0xA0).
\<close>

definition isspace :: "char \<Rightarrow> bool" where
  "isspace c = (let n = (of_char c :: nat) in
     (9 \<le> n \<and> n \<le> 13) \<or> (28 \<le> n \<and> n \<le> 32) \<or> n = 133 \<or> n = 160)"

definition lstrip :: "string \<Rightarrow> string" where
  "lstrip s = dropWhile isspace s"

definition rstrip :: "string \<Rightarrow> string" where
  "rstrip s = rev (dropWhile isspace (rev s))"

definition strip :: "string \<Rightarrow> string" where
  "strip s = rstrip (lstrip s)"

text \<open>\<open>str.upper\<close> on ASCII text: the 26 small letters change, nothing else does.\<close>

definition upper_char :: "char \<Rightarrow> char" where
  "upper_char c =
     (case map_of (zip ''abcdefghijklmnopqrstuvwxyz'' ''ABCDEFGHIJKLMNOPQRSTUVWXYZ'') c of
        Some u \<Rightarrow> u
      | None \<Rightarrow> c)"

definition upper :: "string \<Rightarrow> string" where
  "upper s = map upper_char s"

definition is_ascii :: "string \<Rightarrow> bool" where
  "is_ascii s = list_all (\<lambda>c. (of_char c :: nat) < 128) s"

definition digit_char :: "nat \<Rightarrow> char" where
  "digit_char d = ''0123456789abcdef'' ! (d mod 16)"

fun str_nat :: "nat \<Rightarrow> string" where
  "str_nat n = (if n < 10 then [digit_char n] else str_nat (n div 10) @ [digit_char (n mod 10)])"

declare str_nat.simps [simp del]

definition str_int :: "int \<Rightarrow> string" where
  "str_int i = (if i < 0 then CHR ''-'' # str_nat (nat (- i)) else str_nat (nat i))"

text \<open>
  \<open>repr\<close> of a str: single quotes unless the text holds a single quote and no double
  quote; the quote and the backslash are escaped, tab, newline and carriage return are
  written \<open>\t\<close>, \<open>\n\<close>, \<open>\r\<close>, every other unprintable code point as \<open>\xNN\<close>.
\<close>

definition isprintable :: "char \<Rightarrow> bool" where
  "isprintable c = (let n = (of_char c :: nat) in
     (32 \<le> n \<and> n \<le> 126) \<or> (161 \<le> n \<and> n \<le> 172) \<or> 174 \<le> n)"

definition repr_char :: "char \<Rightarrow> char \<Rightarrow> string" where
  "repr_char q c =
     (if c = q \<or> c = CHR 0x5C then [CHR 0x5C, c]
      else if c = CHR 0x09 then [CHR 0x5C, CHR ''t'']
      else if c = CHR 0x0A then [CHR 0x5C, CHR ''n'']
      else if c = CHR 0x0D then [CHR 0x5C, CHR ''r'']
      else if \<not> isprintable c
        then [CHR 0x5C, CHR ''x'', digit_char (of_char c div 16), digit_char (of_char c mod 16)]
      else [c])"

definition repr_str :: "string \<Rightarrow> string" where
  "repr_str s =
     (let q = (if CHR 0x27 \<in> set s \<and> CHR 0x22 \<notin> set s then CHR 0x22 else CHR 0x27)
      in q # concat (map (repr_char q) s) @ [q])"

fun join :: "string \<Rightarrow> string list \<Rightarrow> string" where
  "join sep [] = []"
| "join sep [x] = x"
| "join sep (x # y # ys) = x @ sep @ join sep (y # ys)"

fun repr :: "pyobj \<Rightarrow> string" where
  "repr PyNone = ''None''"
| "repr (PyBool b) = (if b then ''True'' else ''False'')"
| "repr (PyInt i) = str_int i"
| "repr (PyFloat f) = float_repr f"
| "repr (PyStr s) = repr_str s"
| "repr (PyList xs) = ''['' @ join '', '' (map repr xs) @ '']''"
| "repr (PyDict kvs) =
     ''{'' @ join '', '' (map (\<lambda>(k, v). repr_str k @ '': '' @ repr v) kvs) @ ''}''"

text \<open>\<open>str(v)\<close>: a str is itself, every other value prints as its \<open>repr\<close>.\<close>

fun str :: "pyobj \<Rightarrow> string" where
  "str (PyStr s) = s"
| "str v = repr v"

section \<open>Effects\<close>

text \<open>
  A function's run is the list of effects it performed, in order, and what it handed
  back: \<open>Inr\<close> a value, or \<open>Inl\<close> the exception that left it. Console lines are
  kept by kind, one constructor per \<open>print\<close> of the source, with the data the line
  interpolates. The file is written by the library: the effect is the call of
  \<open>Series.to_csv\<close>, with its path, the series and the index label, and what that
  call leaves in the file is \<open>to_csv\<close>, below.
\<close>

datatype message =
    KeyPlaceholderError
  | Fetching int "string option"
  | DataFetched nat
  | NoResults
  | ApiResponseSample string
  | FetchFailedNetwork py_exception
  | FetchFailedJson py_exception
  | FetchFailedUnexpected py_exception
  | NoCrashDataProvided
  | NoMakesExtracted
  | MakeSeriesEmpty
  | NoDataToPlot
  | CreatedDirectory string
  | NoCrashDataRetrieved
  | NoMakesCannotProceed
  | TopBrandsHeading
  | TopBrandsTable "(string \<times> nat) list"
  | SavedTopBrands string
  | NoTopBrands

datatype request = Get (url: string) (params: "(string \<times> pyobj) list")

datatype chart =
  BarChart (title: string) (xlabel: string) (ylabel: string) (bars: "(string \<times> nat) list")

datatype event =
    Print message
  | HttpGet request
  | MakeDirs string
  | WriteCsv string "(string \<times> nat) list" string
  | ShowChart chart

type_synonym 'a run = "event list \<times> (py_exception + 'a)"

fun is_HttpGet :: "event \<Rightarrow> bool" where
  "is_HttpGet (HttpGet r) = True"
| "is_HttpGet e = False"

fun is_WriteCsv :: "event \<Rightarrow> bool" where
  "is_WriteCsv (WriteCsv p series index_label) = True"
| "is_WriteCsv e = False"

fun is_ShowChart :: "event \<Rightarrow> bool" where
  "is_ShowChart (ShowChart c) = True"
| "is_ShowChart e = False"

text \<open>
  What the network answers to a request: \<open>requests.get\<close> raises, or there is a
  response with a status code and a body, \<open>None\<close> when the body is not JSON.
\<close>

datatype reply = Raises py_exception | Response nat "pyobj option"

section \<open>Step 1: fetch\<close>

definition NHTSA_API_KEY :: string where
  "NHTSA_API_KEY = ''YOUR_NHTSA_API_KEY''"

definition STATE_CODE_MAP :: "(string \<times> string) list" where
  "STATE_CODE_MAP =
    [(''ALABAMA'', ''AL''), (''ALASKA'', ''AK''), (''ARIZONA'', ''AZ''), (''ARKANSAS'', ''AR''),
     (''CALIFORNIA'', ''CA''), (''COLORADO'', ''CO''), (''CONNECTICUT'', ''CT''), (''DELAWARE'', ''DE''),
     (''FLORIDA'', ''FL''), (''GEORGIA'', ''GA''), (''HAWAII'', ''HI''), (''IDAHO'', ''ID''),
     (''ILLINOIS'', ''IL''), (''INDIANA'', ''IN''), (''IOWA'', ''IA''), (''KANSAS'', ''KS''),
     (''KENTUCKY'', ''KY''), (''LOUISIANA'', ''LA''), (''MAINE'', ''ME''), (''MARYLAND'', ''MD''),
     (''MASSACHUSETTS'', ''MA''), (''MICHIGAN'', ''MI''), (''MINNESOTA'', ''MN''), (''MISSISSIPPI'', ''MS''),
     (''MISSOURI'', ''MO''), (''MONTANA'', ''MT''), (''NEBRASKA'', ''NE''), (''NEVADA'', ''NV''),
     (''NEW HAMPSHIRE'', ''NH''), (''NEW JERSEY'', ''NJ''), (''NEW MEXICO'', ''NM''), (''NEW YORK'', ''NY''),
     (''NORTH CAROLINA'', ''NC''), (''NORTH DAKOTA'', ''ND''), (''OHIO'', ''OH''), (''OKLAHOMA'', ''OK''),
     (''OREGON'', ''OR''), (''PENNSYLVANIA'', ''PA''), (''RHODE ISLAND'', ''RI''), (''SOUTH CAROLINA'', ''SC''),
     (''SOUTH DAKOTA'', ''SD''), (''TENNESSEE'', ''TN''), (''TEXAS'', ''TX''), (''UTAH'', ''UT''),
     (''VERMONT'', ''VT''), (''VIRGINIA'', ''VA''), (''WASHINGTON'', ''WA''), (''WEST VIRGINIA'', ''WV''),
     (''WISCONSIN'', ''WI''), (''WYOMING'', ''WY''),
     (''DISTRICT OF COLUMBIA'', ''DC'')]"

text \<open>
  Lines 58 to 61: no state, or the empty string, gives no code; otherwise the upper-cased
  state is looked up in the table and stands for itself when it is not a key.
\<close>

definition state_code_of :: "string option \<Rightarrow> string option" where
  "state_code_of state =
     (case state of
        None \<Rightarrow> None
      | Some s \<Rightarrow>
          if s = [] then None
          else (let state_upper = upper s
                in Some (case map_of STATE_CODE_MAP state_upper of
                           Some code \<Rightarrow> code
                         | None \<Rightarrow> state_upper)))"

definition base_url :: string where
  "base_url = ''https://crashviewer.nhtsa.dot.gov/CrashAPI/crashes/GetCrashesByLocation''"

definition build_params :: "string \<Rightarrow> int \<Rightarrow> string option \<Rightarrow> (string \<times> pyobj) list" where
  "build_params api_key year state_code =
     [(''format'', PyStr ''json''), (''year'', PyInt year), (''API_KEY'', PyStr api_key)]
     @ (case state_code of None \<Rightarrow> [] | Some code \<Rightarrow> [(''state'', PyStr code)])"

text \<open>\<open>response.raise_for_status()\<close>: a status from 400 to 599 raises.\<close>

definition raise_for_status :: "nat \<Rightarrow> py_exception + unit" where
  "raise_for_status status =
     (if 400 \<le> status \<and> status < 600 then Inl (HTTPError status) else Inr ())"

text \<open>The body of the \<open>try\<close> block, lines 65 to 84.\<close>

definition fetch_try :: "(request \<Rightarrow> reply) \<Rightarrow> request \<Rightarrow> int \<Rightarrow> string option \<Rightarrow> pyobj run" where
  "fetch_try net req year state_code =
     (let sent = [Print (Fetching year state_code), HttpGet req] in
      case net req of
        Raises e \<Rightarrow> (sent, Inl e)
      | Response status body \<Rightarrow>
          (case raise_for_status status of
             Inl e \<Rightarrow> (sent, Inl e)
           | Inr u \<Rightarrow>
               (case body of
                  None \<Rightarrow> (sent, Inl JSONDecodeError)
                | Some data \<Rightarrow>
                    (case get data ''Results'' (PyList []) of
                       Inl e \<Rightarrow> (sent, Inl e)
                     | Inr results \<Rightarrow>
                         (case results of
                            PyList (crash_records # others) \<Rightarrow>
                              (case len crash_records of
                                 Inl e \<Rightarrow> (sent, Inl e)
                               | Inr n \<Rightarrow> (sent @ [Print (DataFetched n)], Inr crash_records))
                          | other \<Rightarrow>
                              (sent @ [Print NoResults,
                                       Print (ApiResponseSample (take 500 (str data)))],
                               Inr (PyList [])))))))"

text \<open>
  \<open>fetch_crash_data\<close>, with the configured key and the network as arguments. The three
  handlers differ in the line they print; each returns the empty list.
\<close>

definition fetch_crash_data ::
  "string \<Rightarrow> (request \<Rightarrow> reply) \<Rightarrow> int \<Rightarrow> string option \<Rightarrow> pyobj run" where
  "fetch_crash_data api_key net year state =
     (if api_key = ''YOUR_NHTSA_API_KEY'' then ([Print KeyPlaceholderError], Inr (PyList []))
      else
        (let state_code = state_code_of state;
             req = Get base_url (build_params api_key year state_code)
         in case fetch_try net req year state_code of
              (evs, Inr v) \<Rightarrow> (evs, Inr v)
            | (evs, Inl e) \<Rightarrow>
                if is_RequestException e
                  then (evs @ [Print (FetchFailedNetwork e)], Inr (PyList []))
                else if is_ValueError e
                  then (evs @ [Print (FetchFailedJson e)], Inr (PyList []))
                else (evs @ [Print (FetchFailedUnexpected e)], Inr (PyList []))))"

section \<open>Step 2: extract\<close>

text \<open>The \<open>for\<close> loop of lines 111 to 121, \<open>makes\<close> being the list appended to.\<close>

fun extract_loop :: "pyobj list \<Rightarrow> string list \<Rightarrow> py_exception + string list" where
  "extract_loop [] makes = Inr makes"
| "extract_loop (crash # rest) makes =
     (case get crash ''vehicleMake'' PyNone of
        Inl e \<Rightarrow> Inl e
      | Inr vehicle_make \<Rightarrow>
          if truthy vehicle_make
            then extract_loop rest (makes @ [strip (str vehicle_make)])
          else extract_loop rest makes)"

definition extract_vehicle_makes :: "pyobj \<Rightarrow> string list run" where
  "extract_vehicle_makes crash_data =
     (if \<not> truthy crash_data then ([Print NoCrashDataProvided], Inr [])
      else
        (case iterate crash_data of
           Inl e \<Rightarrow> ([], Inl e)
         | Inr crashes \<Rightarrow>
             (case extract_loop crashes [] of
                Inl e \<Rightarrow> ([], Inl e)
              | Inr makes \<Rightarrow>
                  (if makes = [] then [Print NoMakesExtracted] else [], Inr makes))))"

text \<open>A list of crash records, as the extractor is meant to receive it.\<close>

definition records :: "(string \<times> pyobj) list list \<Rightarrow> pyobj" where
  "records rs = PyList (map PyDict rs)"

section \<open>Step 3: top brands\<close>

text \<open>
  \<open>Series.value_counts\<close> tallies the values in a hash table that keeps them in the
  order of their first appearance, then sorts the table by count, largest first.
\<close>

fun tally :: "(string \<times> nat) list \<Rightarrow> string \<Rightarrow> (string \<times> nat) list" where
  "tally [] k = [(k, 1)]"
| "tally ((k', n) # t) k = (if k' = k then (k', Suc n) # t else (k', n) # tally t k)"

definition count_table :: "string list \<Rightarrow> (string \<times> nat) list" where
  "count_table xs = foldl tally [] xs"

text \<open>
  The sort is the library's \<open>sort_values(ascending=False)\<close>, an argument of the model:
  its documentation promises a rearrangement in descending order, and says nothing
  about entries of equal count. \<open>sorts_descending\<close> is that promise; \<open>keeps_ties\<close>
  is the further property of a stable sort.
\<close>

type_synonym sorter = "(string \<times> nat) list \<Rightarrow> (string \<times> nat) list"

definition sorts_descending :: "sorter \<Rightarrow> bool" where
  "sorts_descending srt =
     (\<forall>t. mset (srt t) = mset t \<and> sorted_wrt (\<lambda>a b. snd b \<le> snd a) (srt t))"


text \<open>
  One such sort, the way \<open>sort_values\<close> goes about a descending order: reverse, sort
  ascending by a stable sort, reverse.
\<close>

definition stable_sort_values :: sorter where
  "stable_sort_values t = rev (sort_key snd (rev t))"


definition value_counts :: "sorter \<Rightarrow> string list \<Rightarrow> (string \<times> nat) list" where
  "value_counts srt xs = srt (count_table xs)"

text \<open>\<open>head(n)\<close> is the slice \<open>[:n]\<close>: a negative \<open>n\<close> drops the last \<open>-n\<close> rows.\<close>

definition head :: "'a list \<Rightarrow> int \<Rightarrow> 'a list" where
  "head xs n = (if 0 \<le> n then take (nat n) xs else take (length xs - nat (- n)) xs)"

definition get_top_vehicle_brands ::
  "sorter \<Rightarrow> string list \<Rightarrow> int \<Rightarrow> event list \<times> (string \<times> nat) list" where
  "get_top_vehicle_brands srt make_series top_n =
     (if make_series = [] then ([Print MakeSeriesEmpty], [])
      else ([], head (value_counts srt make_series) top_n))"


section \<open>Step 4: plot, and the report\<close>

text \<open>
  Lines 144 to 161. The chart is kept as what is asked of the plotting library, and the
  drawing is taken to succeed. (The library can refuse a label: \<open>tight_layout\<close> raises
  a \<open>ValueError\<close> on text it reads as mathematics, such as two dollar signs, and
  \<open>main\<close> would let it through. By then the file is written.)
\<close>

definition plot_top_brands :: "(string \<times> nat) list \<Rightarrow> event list" where
  "plot_top_brands brand_counts =
     (if brand_counts = [] then [Print NoDataToPlot]
      else [ShowChart (BarChart ''Top Vehicle Brands in Crashes'' ''Vehicle Brand''
                         ''Crash Count'' brand_counts)])"

subsection \<open>The file\<close>

text \<open>
  \<open>Series.to_csv\<close> writes through the writer of Python's \<open>csv\<close> module, with the
  comma as delimiter, the double quote as quote character, quoting where needed and the
  line feed as line terminator (\<open>os.linesep\<close>, on POSIX). Inside the quotes a quote
  character is doubled. A row is its fields joined by the delimiter, then the line
  terminator; a row of one empty field is written as two quote characters.

  Which fields are quoted is the module's affair, and the repository fixes no version of
  it. As documented, the writer quotes a field that holds the delimiter, the quote
  character or a character of the line terminator: \<open>LineTerminatorOnly\<close>. The writer
  of Python 3.11.10 and of 3.12.3 also quotes a field that holds a carriage return or a
  line feed, whatever the line terminator: \<open>EveryNewline\<close>.
\<close>

datatype quoting = LineTerminatorOnly | EveryNewline

definition needs_quote :: "quoting \<Rightarrow> string \<Rightarrow> bool" where
  "needs_quote q field =
     list_ex (\<lambda>c. c = CHR '','' \<or> c = CHR 0x22 \<or> c = CHR 0x0A
                  \<or> (q = EveryNewline \<and> c = CHR 0x0D)) field"

definition csv_field :: "quoting \<Rightarrow> string \<Rightarrow> string" where
  "csv_field q field =
     (if needs_quote q field
        then CHR 0x22 # concat (map (\<lambda>c. if c = CHR 0x22 then [c, c] else [c]) field) @ [CHR 0x22]
      else field)"

definition writerow :: "quoting \<Rightarrow> string list \<Rightarrow> string" where
  "writerow q fields =
     (if fields = [[]] then [CHR 0x22, CHR 0x22] else join '','' (map (csv_field q) fields))
     @ [CHR 0x0A]"

definition writerows :: "quoting \<Rightarrow> string list list \<Rightarrow> string" where
  "writerows q rows = concat (map (writerow q) rows)"

text \<open>
  \<open>Series.to_csv(path, index_label=...)\<close>: the header, made of the index label and
  the name of the series, then one row for each entry of the series, from first to last,
  the index value and the count in decimal. \<open>value_counts\<close> names its result
  \<open>count\<close> (pandas 2 and later).
\<close>

definition count_column :: string where
  "count_column = ''count''"

definition to_csv :: "quoting \<Rightarrow> (string \<times> nat) list \<Rightarrow> string \<Rightarrow> string" where
  "to_csv q series index_label =
     writerows q ([index_label, count_column] # map (\<lambda>(brand, n). [brand, str_nat n]) series)"

text \<open>The files a run leaves, each with its text, in the order they were written.\<close>

fun files_written :: "quoting \<Rightarrow> event list \<Rightarrow> (string \<times> string) list" where
  "files_written q [] = []"
| "files_written q (WriteCsv path series index_label # evs) =
     (path, to_csv q series index_label) # files_written q evs"
| "files_written q (e # evs) = files_written q evs"

text \<open>
  What a reader of the file finds in it: the reader of the \<open>csv\<close> module with the same
  dialect, on a file opened with \<open>newline=''\<close>. It goes through the text one character
  at a time and keeps the field it is in, the fields of the row it is in, and the rows
  it has finished. Outside quotes a line feed, a carriage return, or the two in a row
  end the row; an empty line is a row of no fields. Inside quotes only the quote
  character is special.
\<close>

datatype reader_state = StartRecord | AfterCR | StartField | InField | InQuoted | QuoteInQuoted

type_synonym reader = "reader_state \<times> string \<times> string list \<times> string list list"

definition start_field :: "char \<Rightarrow> string list \<Rightarrow> string list list \<Rightarrow> reader" where
  "start_field c fields rows =
     (if c = CHR 0x0A then (StartRecord, [], [], rows @ [fields @ [[]]])
      else if c = CHR 0x0D then (AfterCR, [], [], rows @ [fields @ [[]]])
      else if c = CHR 0x22 then (InQuoted, [], fields, rows)
      else if c = CHR '','' then (StartField, [], fields @ [[]], rows)
      else (InField, [c], fields, rows))"

definition start_record :: "char \<Rightarrow> string list list \<Rightarrow> reader" where
  "start_record c rows =
     (if c = CHR 0x0A then (StartRecord, [], [], rows @ [[]])
      else if c = CHR 0x0D then (AfterCR, [], [], rows @ [[]])
      else start_field c [] rows)"

fun read_char :: "reader \<Rightarrow> char \<Rightarrow> reader" where
  "read_char (StartRecord, field, fields, rows) c = start_record c rows"
| "read_char (AfterCR, field, fields, rows) c =
     (if c = CHR 0x0A then (StartRecord, [], [], rows) else start_record c rows)"
| "read_char (StartField, field, fields, rows) c = start_field c fields rows"
| "read_char (InField, field, fields, rows) c =
     (if c = CHR 0x0A then (StartRecord, [], [], rows @ [fields @ [field]])
      else if c = CHR 0x0D then (AfterCR, [], [], rows @ [fields @ [field]])
      else if c = CHR '','' then (StartField, [], fields @ [field], rows)
      else (InField, field @ [c], fields, rows))"
| "read_char (InQuoted, field, fields, rows) c =
     (if c = CHR 0x22 then (QuoteInQuoted, field, fields, rows)
      else (InQuoted, field @ [c], fields, rows))"
| "read_char (QuoteInQuoted, field, fields, rows) c =
     (if c = CHR 0x22 then (InQuoted, field @ [c], fields, rows)
      else if c = CHR '','' then (StartField, [], fields @ [field], rows)
      else if c = CHR 0x0A then (StartRecord, [], [], rows @ [fields @ [field]])
      else if c = CHR 0x0D then (AfterCR, [], [], rows @ [fields @ [field]])
      else (InField, field @ [c], fields, rows))"

fun end_of_file :: "reader \<Rightarrow> string list list" where
  "end_of_file (StartRecord, field, fields, rows) = rows"
| "end_of_file (AfterCR, field, fields, rows) = rows"
| "end_of_file (st, field, fields, rows) = rows @ [fields @ [field]]"

definition csv_reader :: "string \<Rightarrow> string list list" where
  "csv_reader text = end_of_file (foldl read_char (StartRecord, [], [], []) text)"

text \<open>
  A plain field holds no character the reader treats specially. A field is readable when
  any carriage return in it gets it quoted; with \<open>EveryNewline\<close> every field is.
\<close>

definition plain :: "string \<Rightarrow> bool" where
  "plain field =
     list_all (\<lambda>c. c \<noteq> CHR '','' \<and> c \<noteq> CHR 0x22 \<and> c \<noteq> CHR 0x0A \<and> c \<noteq> CHR 0x0D) field"

definition readable :: "quoting \<Rightarrow> string \<Rightarrow> bool" where
  "readable q field = (CHR 0x0D \<in> set field \<longrightarrow> needs_quote q field)"

definition csv_path :: string where
  "csv_path = ''outputs/top_vehicle_brands.csv''"

text \<open>Lines 191 to 201 of \<open>main\<close>: what is done with the top brands.\<close>

definition report_top_brands :: "(string \<times> nat) list \<Rightarrow> event list" where
  "report_top_brands top_brands =
     (if top_brands \<noteq> []
        then [Print TopBrandsHeading, Print (TopBrandsTable top_brands),
              WriteCsv csv_path top_brands ''Vehicle Brand'',
              Print (SavedTopBrands csv_path)]
             @ plot_top_brands top_brands
      else [Print NoTopBrands])"

section \<open>Step 5: main\<close>

text \<open>
  \<open>main\<close> with what it reads from its surroundings as arguments: the library's sort,
  the configured key, the network, and whether the output directory exists already.
  Where the report is reached, the value returned is that of a plot that succeeded.
\<close>

definition main :: "sorter \<Rightarrow> string \<Rightarrow> (request \<Rightarrow> reply) \<Rightarrow> bool \<Rightarrow> unit run" where
  "main srt api_key net dir_exists =
     (let year = 2023;
          state = Some ''MI'';
          output_dir = ''outputs'';
          made = (if \<not> dir_exists then [MakeDirs output_dir, Print (CreatedDirectory output_dir)]
                  else [])
      in case fetch_crash_data api_key net year state of
           (fetched, Inl e) \<Rightarrow> (made @ fetched, Inl e)
         | (fetched, Inr crash_data) \<Rightarrow>
             if \<not> truthy crash_data
               then (made @ fetched @ [Print NoCrashDataRetrieved], Inr ())
             else
               (case extract_vehicle_makes crash_data of
                  (extracted, Inl e) \<Rightarrow> (made @ fetched @ extracted, Inl e)
                | (extracted, Inr make_series) \<Rightarrow>
                    if make_series = []
                      then (made @ fetched @ extracted @ [Print NoMakesCannotProceed], Inr ())
                    else
                      (case get_top_vehicle_brands srt make_series 10 of
                         (counted, top_brands) \<Rightarrow>
                           (made @ fetched @ extracted @ counted @ report_top_brands top_brands,
                            Inr ()))))"

section \<open>Properties of the extractor\<close>

text \<open>
  On a list of records the loop never raises: it appends, for each record in turn, the
  trimmed text of the field when the field's value counts as true, and nothing otherwise.
\<close>

lemma extract_loop_records:
  "extract_loop (map PyDict rs) acc =
     Inr (acc @ List.map_filter
        (\<lambda>r. case map_of r ''vehicleMake'' of
            None \<Rightarrow> None
          | Some v \<Rightarrow> if truthy v then Some (strip (str v)) else None) rs)"
  by (induction rs arbitrary: acc) (simp_all split: option.splits)

lemma extract_records:
  "snd (extract_vehicle_makes (records rs)) =
     Inr (List.map_filter
        (\<lambda>r. case map_of r ''vehicleMake'' of
            None \<Rightarrow> None
          | Some v \<Rightarrow> if truthy v then Some (strip (str v)) else None) rs)"
proof (cases "rs = []")
  case True
  then show ?thesis
    by (simp add: extract_vehicle_makes_def records_def)
next
  case False
  then show ?thesis
    by (simp add: extract_vehicle_makes_def records_def extract_loop_records)
qed

text \<open>
  C1 does not hold of the code. Line 116 tests the raw field for emptiness and line 117
  trims afterwards; nothing tests what the trimming leaves. So a field of two spaces
  passes the test and contributes the empty string, and as the list of makes is then
  not empty, the warning of line 123 is not printed either. The empty field itself is
  dropped, with the warning. The number 0, whose text is not empty, is dropped as well:
  it counts as false at line 116.
\<close>

theorem extract_makes_blank_field:
  "extract_vehicle_makes (records [[(''vehicleMake'', PyStr ''  '')]]) = ([], Inr [[]])
   \<and> extract_vehicle_makes (records [[(''vehicleMake'', PyStr [])]])
       = ([Print NoMakesExtracted], Inr [])
   \<and> extract_vehicle_makes (records [[(''vehicleMake'', PyInt 0)]])
       = ([Print NoMakesExtracted], Inr [])"
  by (simp add: extract_vehicle_makes_def records_def strip_def lstrip_def rstrip_def isspace_def)

text \<open>
  C7. For every list of records the extractor returns a list no longer than its input,
  whose strings are, in the order of the input, trimmed fields of the records; the
  empty list gives the empty list, not an error.
\<close>

theorem extract_makes_length_and_order:
  "(\<exists>out. snd (extract_vehicle_makes (records rs)) = Inr out
      \<and> length out \<le> length rs
      \<and> subseq out
          (map (\<lambda>r. strip (str (case map_of r ''vehicleMake'' of Some v \<Rightarrow> v | None \<Rightarrow> PyNone))) rs))
   \<and> extract_vehicle_makes (records []) = ([Print NoCrashDataProvided], Inr [])"
proof -
  let ?v = "\<lambda>r. case map_of r ''vehicleMake'' of Some v \<Rightarrow> v | None \<Rightarrow> PyNone"
  let ?f = "\<lambda>r. case map_of r ''vehicleMake'' of
            None \<Rightarrow> None
          | Some v \<Rightarrow> if truthy v then Some (strip (str v)) else None"
  have "?f = (\<lambda>r. if truthy (?v r) then Some (strip (str (?v r))) else None)"
    by (auto split: option.splits)
  then have eq: "List.map_filter ?f rs = map (\<lambda>r. strip (str (?v r))) (filter (\<lambda>r. truthy (?v r)) rs)"
    by (simp only: map_filter_map_filter)
  have "length (List.map_filter ?f rs) \<le> length rs"
    by (simp only: eq length_map length_filter_le)
  moreover have "subseq (List.map_filter ?f rs) (map (\<lambda>r. strip (str (?v r))) rs)"
    by (simp only: eq subseq_map subseq_filter_left)
  moreover have "extract_vehicle_makes (records []) = ([Print NoCrashDataProvided], Inr [])"
    by (simp add: extract_vehicle_makes_def records_def)
  ultimately show ?thesis
    by (simp add: extract_records)
qed

theorem extract_makes_length_and_order_witness:
  "snd (extract_vehicle_makes (records
      [[(''vehicleMake'', PyStr ''Ford'')], [], [(''vehicleMake'', PyStr ''GM '')]])) = Inr [''Ford'', ''GM'']
   \<and> length [''Ford'', ''GM'']
       \<le> length [[(''vehicleMake'', PyStr ''Ford'')], [], [(''vehicleMake'', PyStr ''GM '')]]
   \<and> subseq [''Ford'', ''GM''] [''Ford'', ''None'', ''GM'']"
  using extract_makes_length_and_order
    [of "[[(''vehicleMake'', PyStr ''Ford'')], [], [(''vehicleMake'', PyStr ''GM '')]]"]
  by (simp add: extract_vehicle_makes_def records_def strip_def lstrip_def rstrip_def isspace_def)

text \<open>
  C10. Extraction distributes over concatenation: on two lists of records put end to
  end it returns what it returns on the first followed by what it returns on the second.
\<close>

theorem extract_makes_append:
  "\<exists>a b. snd (extract_vehicle_makes (records xs)) = Inr a
      \<and> snd (extract_vehicle_makes (records ys)) = Inr b
      \<and> snd (extract_vehicle_makes (records (xs @ ys))) = Inr (a @ b)"
proof -
  let ?f = "\<lambda>r. case map_of r ''vehicleMake'' of
            None \<Rightarrow> None
          | Some v \<Rightarrow> if truthy v then Some (strip (str v)) else None"
  have "List.map_filter ?f (xs @ ys) = List.map_filter ?f xs @ List.map_filter ?f ys"
    by (simp add: map_filter_def)
  then have "snd (extract_vehicle_makes (records (xs @ ys)))
      = Inr (List.map_filter ?f xs @ List.map_filter ?f ys)"
    by (simp only: extract_records)
  moreover have "snd (extract_vehicle_makes (records xs)) = Inr (List.map_filter ?f xs)"
    by (rule extract_records)
  moreover have "snd (extract_vehicle_makes (records ys)) = Inr (List.map_filter ?f ys)"
    by (rule extract_records)
  ultimately show ?thesis
    by blast
qed

theorem extract_makes_append_witness:
  "snd (extract_vehicle_makes (records [[(''vehicleMake'', PyStr ''Ford'')], []])) = Inr [''Ford'']
   \<and> snd (extract_vehicle_makes (records [[(''vehicleMake'', PyStr '' GM'')]])) = Inr [''GM'']
   \<and> snd (extract_vehicle_makes (records
        ([[(''vehicleMake'', PyStr ''Ford'')], []] @ [[(''vehicleMake'', PyStr '' GM'')]])))
      = Inr ([''Ford''] @ [''GM''])"
  using extract_makes_append
    [of "[[(''vehicleMake'', PyStr ''Ford'')], []]" "[[(''vehicleMake'', PyStr '' GM'')]]"]
  by (simp add: extract_vehicle_makes_def records_def strip_def lstrip_def rstrip_def isspace_def)

section \<open>Properties of the fetcher\<close>

text \<open>
  The three tests of line 75 (\<open>results\<close> counts as true, is a list, has a positive
  length) hold together of a non-empty list and of nothing else, which is the pattern
  \<open>fetch_try\<close> matches.
\<close>

lemma line_75_test:
  "(truthy results \<and> isinstance_list results \<and> (\<exists>n. len results = Inr n \<and> 0 < n))
   = (\<exists>x xs. results = PyList (x # xs))"
  by (cases results) (auto simp: neq_Nil_conv)

lemma fetch_try_events:
  "filter is_HttpGet (fst (fetch_try net req year state_code)) = [HttpGet req]"
  by (simp add: fetch_try_def Let_def split: reply.splits sum.splits option.splits
      pyobj.splits list.splits)

lemma fetch_try_result:
  "snd (fetch_try net req year state_code) =
     (case net req of
        Raises e \<Rightarrow> Inl e
      | Response status body \<Rightarrow>
          if 400 \<le> status \<and> status < 600 then Inl (HTTPError status)
          else (case body of
                  None \<Rightarrow> Inl JSONDecodeError
                | Some data \<Rightarrow>
                    (case get data ''Results'' (PyList []) of
                       Inl e \<Rightarrow> Inl e
                     | Inr (PyList (crash_records # others)) \<Rightarrow>
                         (case len crash_records of
                            Inl e \<Rightarrow> Inl e
                          | Inr n \<Rightarrow> Inr crash_records)
                     | Inr other \<Rightarrow> Inr (PyList []))))"
  by (auto simp: fetch_try_def raise_for_status_def Let_def split: reply.splits sum.splits
      option.splits pyobj.splits list.splits)

lemma fetch_crash_data_result:
  "api_key \<noteq> ''YOUR_NHTSA_API_KEY'' \<Longrightarrow>
   snd (fetch_crash_data api_key net year state) =
     Inr (case snd (fetch_try net (Get base_url (build_params api_key year (state_code_of state)))
                      year (state_code_of state)) of
            Inr v \<Rightarrow> v
          | Inl e \<Rightarrow> PyList [])"
  by (simp add: fetch_crash_data_def Let_def split: prod.splits sum.splits)

lemma fetch_crash_data_returns:
  "\<exists>v. snd (fetch_crash_data api_key net year state) = Inr v"
  by (simp add: fetch_crash_data_def Let_def split: prod.splits sum.splits)

lemma fetch_crash_data_placeholder:
  "fetch_crash_data ''YOUR_NHTSA_API_KEY'' net year state
     = ([Print KeyPlaceholderError], Inr (PyList []))"
  by (simp add: fetch_crash_data_def)

lemma fetch_crash_data_requests:
  "api_key \<noteq> ''YOUR_NHTSA_API_KEY'' \<Longrightarrow>
   filter is_HttpGet (fst (fetch_crash_data api_key net year state))
     = [HttpGet (Get base_url (build_params api_key year (state_code_of state)))]"
  using fetch_try_events
    [of net "Get base_url (build_params api_key year (state_code_of state))" year
        "state_code_of state"]
  by (cases "fetch_try net (Get base_url (build_params api_key year (state_code_of state)))
        year (state_code_of state)")
     (auto simp: fetch_crash_data_def Let_def split: sum.splits)

text \<open>What is returned once a response with a good status and a JSON body has come.\<close>

lemma fetch_crash_data_body:
  assumes "api_key \<noteq> ''YOUR_NHTSA_API_KEY''"
    and "net (Get base_url (build_params api_key year (state_code_of state)))
           = Response status (Some body)"
    and "\<not> (400 \<le> status \<and> status < 600)"
  shows "snd (fetch_crash_data api_key net year state) =
     Inr (case get body ''Results'' (PyList []) of
            Inr (PyList (crash_records # others)) \<Rightarrow>
              (case len crash_records of Inr n \<Rightarrow> crash_records | Inl e \<Rightarrow> PyList [])
          | other \<Rightarrow> PyList [])"
  using assms(2,3)
  by (auto simp: fetch_crash_data_result [OF assms(1)] fetch_try_result
      split: sum.splits pyobj.splits list.splits)

lemma fetch_crash_data_failure:
  assumes "api_key \<noteq> ''YOUR_NHTSA_API_KEY''"
    and "net (Get base_url (build_params api_key year (state_code_of state))) = r"
    and "(\<exists>e. r = Raises e) \<or> (\<exists>status body. r = Response status body
            \<and> ((400 \<le> status \<and> status < 600) \<or> body = None))"
  shows "snd (fetch_crash_data api_key net year state) = Inr (PyList [])"
  using assms(2,3)
  by (auto simp: fetch_crash_data_result [OF assms(1)] fetch_try_result)

text \<open>
  C3, as the code has it. After a response with a good status and a JSON body, the
  fetcher returns the first element of the list under \<open>Results\<close> whenever that field
  holds a non-empty list and the first element has a length: a list of records, but an
  object or a string as well, since the element's type is not looked at. A body that is
  not an object, a missing field, an empty list, a field that is not a list, and a first
  element without a length (null, a boolean, a number) give the empty list. Nothing
  is raised in any of these cases.
\<close>

theorem fetch_first_element_of_results:
  assumes "api_key \<noteq> ''YOUR_NHTSA_API_KEY''"
    and "net (Get base_url (build_params api_key year (state_code_of state)))
           = Response status (Some body)"
    and "\<not> (400 \<le> status \<and> status < 600)"
  shows
    "(\<forall>kvs rs others. body = PyDict kvs
        \<and> map_of kvs ''Results'' = Some (PyList (PyList rs # others))
        \<longrightarrow> snd (fetch_crash_data api_key net year state) = Inr (PyList rs))
     \<and> (\<forall>kvs first others n. body = PyDict kvs
        \<and> map_of kvs ''Results'' = Some (PyList (first # others)) \<and> len first = Inr n
        \<longrightarrow> snd (fetch_crash_data api_key net year state) = Inr first)
     \<and> (\<forall>kvs first others e. body = PyDict kvs
        \<and> map_of kvs ''Results'' = Some (PyList (first # others)) \<and> len first = Inl e
        \<longrightarrow> snd (fetch_crash_data api_key net year state) = Inr (PyList []))
     \<and> ((\<nexists>kvs first others. body = PyDict kvs
           \<and> map_of kvs ''Results'' = Some (PyList (first # others)))
        \<longrightarrow> snd (fetch_crash_data api_key net year state) = Inr (PyList []))"
proof -
  note body = fetch_crash_data_body [of api_key net year state status body, OF assms]
  have 1: "snd (fetch_crash_data api_key net year state) = Inr first"
    if "body = PyDict kvs" "map_of kvs ''Results'' = Some (PyList (first # others))"
      "len first = Inr n" for kvs first others n
    using that by (simp add: body)
  have 2: "snd (fetch_crash_data api_key net year state) = Inr (PyList [])"
    if "body = PyDict kvs" "map_of kvs ''Results'' = Some (PyList (first # others))"
      "len first = Inl e" for kvs first others e
    using that by (simp add: body)
  have 3: "snd (fetch_crash_data api_key net year state) = Inr (PyList [])"
    if "\<nexists>kvs first others. body = PyDict kvs
           \<and> map_of kvs ''Results'' = Some (PyList (first # others))"
  proof (cases body)
    case (PyDict kvs)
    with that show ?thesis
      by (simp add: body split: option.splits pyobj.splits list.splits)
  qed (simp_all add: body)
  have 0: "snd (fetch_crash_data api_key net year state) = Inr (PyList rs)"
    if "body = PyDict kvs" "map_of kvs ''Results'' = Some (PyList (PyList rs # others))"
    for kvs rs others
    using that by (simp add: body)
  show ?thesis
    using 0 1 2 3 by blast
qed

theorem fetch_first_element_of_results_witness:
  "''key'' \<noteq> ''YOUR_NHTSA_API_KEY''
   \<and> \<not> (400 \<le> (200::nat) \<and> (200::nat) < 600)
   \<and> len (PyList [PyDict [(''vehicleMake'', PyStr ''Ford'')]]) = Inr 1
   \<and> snd (fetch_crash_data ''key''
      (\<lambda>r. Response 200 (Some (PyDict [(''Count'', PyInt 1),
         (''Results'', PyList [PyList [PyDict [(''vehicleMake'', PyStr ''Ford'')]]])])))
      2023 (Some ''MI''))
    = Inr (PyList [PyDict [(''vehicleMake'', PyStr ''Ford'')]])"
proof -
  let ?body = "PyDict [(''Count'', PyInt 1),
         (''Results'', PyList [PyList [PyDict [(''vehicleMake'', PyStr ''Ford'')]]])]"
  have a: "''key'' \<noteq> ''YOUR_NHTSA_API_KEY''" by simp
  have b: "(\<lambda>r. Response 200 (Some ?body))
      (Get base_url (build_params ''key'' 2023 (state_code_of (Some ''MI''))))
      = Response 200 (Some ?body)" by simp
  have c: "\<not> (400 \<le> (200::nat) \<and> (200::nat) < 600)" by simp
  have d: "len (PyList [PyDict [(''vehicleMake'', PyStr ''Ford'')]]) = Inr 1" by simp
  have "snd (fetch_crash_data ''key'' (\<lambda>r. Response 200 (Some ?body)) 2023 (Some ''MI''))
    = Inr (PyList [PyDict [(''vehicleMake'', PyStr ''Ford'')]])"
    using fetch_first_element_of_results
      [of "''key''" "\<lambda>r. Response 200 (Some ?body)" 2023 "Some ''MI''" 200 ?body, OF a b c]
    by simp
  with a c d show ?thesis
    by (intro conjI)
qed

text \<open>
  The claim as the specification words it fails: a first element that is an object, not
  a list, is handed back as it is instead of the empty list.
\<close>

theorem fetch_object_first_element_counterexample:
  "snd (fetch_crash_data ''key''
      (\<lambda>r. Response 200 (Some (PyDict [(''Results'', PyList [PyDict [(''Message'', PyStr ''none'')]])])))
      2023 (Some ''MI''))
    = Inr (PyDict [(''Message'', PyStr ''none'')])"
  by (simp add: fetch_crash_data_result fetch_try_result)

text \<open>
  C4, as the code has it. The fetcher never raises. With the placeholder key it prints
  the diagnostic and returns the empty list without any request; with any other key it
  sends exactly one request, to the endpoint. What it returns follows from the answer
  to that request (the request being the one of the model for a region given in ASCII):
  the empty list after a failure of the network, after an error status and after a body
  that is not JSON; after a JSON body, the first element of the list under
  \<open>Results\<close> exactly when that field holds a non-empty list whose first element has a
  length (a list, but an object or a string as well, returned as it is), and the empty
  list for every other shape.
\<close>

theorem fetch_never_raises:
  "(\<exists>v. snd (fetch_crash_data api_key net year state) = Inr v)
   \<and> fetch_crash_data ''YOUR_NHTSA_API_KEY'' net year state
       = ([Print KeyPlaceholderError], Inr (PyList []))
   \<and> (api_key \<noteq> ''YOUR_NHTSA_API_KEY'' \<longrightarrow>
        (\<exists>req. filter is_HttpGet (fst (fetch_crash_data api_key net year state)) = [HttpGet req]
           \<and> url req = base_url))
   \<and> (api_key \<noteq> ''YOUR_NHTSA_API_KEY'' \<and> (\<forall>s. state = Some s \<longrightarrow> is_ascii s) \<longrightarrow>
        filter is_HttpGet (fst (fetch_crash_data api_key net year state))
          = [HttpGet (Get base_url (build_params api_key year (state_code_of state)))]
        \<and> (case net (Get base_url (build_params api_key year (state_code_of state))) of
              Raises e \<Rightarrow> snd (fetch_crash_data api_key net year state) = Inr (PyList [])
            | Response status body \<Rightarrow>
                if 400 \<le> status \<and> status < 600
                  then snd (fetch_crash_data api_key net year state) = Inr (PyList [])
                else
                  (case body of
                     None \<Rightarrow> snd (fetch_crash_data api_key net year state) = Inr (PyList [])
                   | Some data \<Rightarrow>
                       (\<forall>kvs first others n. data = PyDict kvs
                            \<and> map_of kvs ''Results'' = Some (PyList (first # others))
                            \<and> len first = Inr n
                          \<longrightarrow> snd (fetch_crash_data api_key net year state) = Inr first)
                       \<and> ((\<nexists>kvs first others n. data = PyDict kvs
                              \<and> map_of kvs ''Results'' = Some (PyList (first # others))
                              \<and> len first = Inr n)
                          \<longrightarrow> snd (fetch_crash_data api_key net year state) = Inr (PyList [])))))"
proof -
  let ?req = "Get base_url (build_params api_key year (state_code_of state))"
  let ?result = "snd (fetch_crash_data api_key net year state)"
  have returned: "?result = Inr first"
    if "api_key \<noteq> ''YOUR_NHTSA_API_KEY''"
      and "net ?req = Response status (Some data)"
      and "\<not> (400 \<le> status \<and> status < 600)"
      and "data = PyDict kvs" and "map_of kvs ''Results'' = Some (PyList (first # others))"
      and "len first = Inr n" for status data kvs first others n
    using that(4-6)
    by (simp add: fetch_crash_data_body [of api_key net year state status data, OF that(1-3)])
  have other_shape: "?result = Inr (PyList [])"
    if "api_key \<noteq> ''YOUR_NHTSA_API_KEY''"
      and "net ?req = Response status (Some data)"
      and "\<not> (400 \<le> status \<and> status < 600)"
      and none: "\<nexists>kvs first others n. data = PyDict kvs
            \<and> map_of kvs ''Results'' = Some (PyList (first # others)) \<and> len first = Inr n"
    for status data
  proof (cases data)
    case (PyDict kvs)
    with none show ?thesis
      by (auto simp: fetch_crash_data_body [of api_key net year state status data, OF that(1-3)]
          split: option.splits pyobj.splits list.splits sum.splits)
  qed (simp_all add: fetch_crash_data_body [of api_key net year state status data, OF that(1-3)])
  have failure: "?result = Inr (PyList [])"
    if "api_key \<noteq> ''YOUR_NHTSA_API_KEY''"
      and "(\<exists>e. net ?req = Raises e)
        \<or> (\<exists>status body. net ?req = Response status body
            \<and> ((400 \<le> status \<and> status < 600) \<or> body = None))"
    using fetch_crash_data_failure [of api_key net year state, OF that(1) refl] that(2)
    by simp
  have cases: "api_key \<noteq> ''YOUR_NHTSA_API_KEY'' \<longrightarrow>
        (case net ?req of
           Raises e \<Rightarrow> ?result = Inr (PyList [])
         | Response status body \<Rightarrow>
             if 400 \<le> status \<and> status < 600 then ?result = Inr (PyList [])
             else
               (case body of
                  None \<Rightarrow> ?result = Inr (PyList [])
                | Some data \<Rightarrow>
                    (\<forall>kvs first others n. data = PyDict kvs
                         \<and> map_of kvs ''Results'' = Some (PyList (first # others))
                         \<and> len first = Inr n
                       \<longrightarrow> ?result = Inr first)
                    \<and> ((\<nexists>kvs first others n. data = PyDict kvs
                           \<and> map_of kvs ''Results'' = Some (PyList (first # others))
                           \<and> len first = Inr n)
                       \<longrightarrow> ?result = Inr (PyList []))))"
  proof (intro impI)
    assume key: "api_key \<noteq> ''YOUR_NHTSA_API_KEY''"
    show "case net ?req of
           Raises e \<Rightarrow> ?result = Inr (PyList [])
         | Response status body \<Rightarrow>
             if 400 \<le> status \<and> status < 600 then ?result = Inr (PyList [])
             else
               (case body of
                  None \<Rightarrow> ?result = Inr (PyList [])
                | Some data \<Rightarrow>
                    (\<forall>kvs first others n. data = PyDict kvs
                         \<and> map_of kvs ''Results'' = Some (PyList (first # others))
                         \<and> len first = Inr n
                       \<longrightarrow> ?result = Inr first)
                    \<and> ((\<nexists>kvs first others n. data = PyDict kvs
                           \<and> map_of kvs ''Results'' = Some (PyList (first # others))
                           \<and> len first = Inr n)
                       \<longrightarrow> ?result = Inr (PyList [])))"
    proof (cases "net ?req")
      case (Raises e)
      then show ?thesis
        using failure [OF key] by simp
    next
      case (Response status body)
      show ?thesis
      proof (cases "400 \<le> status \<and> status < 600")
        case True
        then show ?thesis
          using failure [OF key] Response by simp
      next
        case good: False
        show ?thesis
        proof (cases body)
          case None
          then show ?thesis
            using failure [OF key] Response good by simp
        next
          case (Some data)
          have r: "net ?req = Response status (Some data)"
            using Response Some by simp
          have p1: "\<forall>kvs first others n. data = PyDict kvs
                \<and> map_of kvs ''Results'' = Some (PyList (first # others))
                \<and> len first = Inr n
              \<longrightarrow> ?result = Inr first"
            using returned [OF key r good] by blast
          have p2: "(\<nexists>kvs first others n. data = PyDict kvs
                \<and> map_of kvs ''Results'' = Some (PyList (first # others))
                \<and> len first = Inr n)
              \<longrightarrow> ?result = Inr (PyList [])"
          proof (intro impI)
            assume "\<nexists>kvs first others n. data = PyDict kvs
                \<and> map_of kvs ''Results'' = Some (PyList (first # others))
                \<and> len first = Inr n"
            with key r good show "?result = Inr (PyList [])"
              by (rule other_shape)
          qed
          from p1 p2 have "(\<forall>kvs first others n. data = PyDict kvs
                \<and> map_of kvs ''Results'' = Some (PyList (first # others))
                \<and> len first = Inr n
              \<longrightarrow> ?result = Inr first)
            \<and> ((\<nexists>kvs first others n. data = PyDict kvs
                \<and> map_of kvs ''Results'' = Some (PyList (first # others))
                \<and> len first = Inr n)
              \<longrightarrow> ?result = Inr (PyList []))"
            by (rule conjI)
          then show ?thesis
            using good by (simp only: Response Some reply.case option.case if_False)
        qed
      qed
    qed
  qed
  have one: "api_key \<noteq> ''YOUR_NHTSA_API_KEY'' \<longrightarrow>
        (\<exists>req. filter is_HttpGet (fst (fetch_crash_data api_key net year state)) = [HttpGet req]
           \<and> url req = base_url)"
    using fetch_crash_data_requests [of api_key net year state] by simp
  show ?thesis
    using fetch_crash_data_returns [of api_key net year state]
      fetch_crash_data_placeholder [of net year state]
      fetch_crash_data_requests [of api_key net year state] one cases
    by blast
qed

theorem fetch_never_raises_witness:
  "''key'' \<noteq> ''YOUR_NHTSA_API_KEY'' \<and> is_ascii ''MI''
   \<and> len (PyList [PyDict [(''vehicleMake'', PyStr ''Ford'')]]) = Inr 1
   \<and> snd (fetch_crash_data ''key''
        (\<lambda>r. Response 200 (Some (PyDict [(''Count'', PyInt 1),
           (''Results'', PyList [PyList [PyDict [(''vehicleMake'', PyStr ''Ford'')]]])])))
        2023 (Some ''MI''))
       = Inr (PyList [PyDict [(''vehicleMake'', PyStr ''Ford'')]])
   \<and> filter is_HttpGet (fst (fetch_crash_data ''key''
        (\<lambda>r. Response 200 (Some (PyDict [(''Count'', PyInt 1),
           (''Results'', PyList [PyList [PyDict [(''vehicleMake'', PyStr ''Ford'')]]])])))
        2023 (Some ''MI'')))
       = [HttpGet (Get base_url (build_params ''key'' 2023 (state_code_of (Some ''MI''))))]
   \<and> fetch_crash_data ''YOUR_NHTSA_API_KEY''
        (\<lambda>r. Response 200 (Some (PyDict [(''Count'', PyInt 1),
           (''Results'', PyList [PyList [PyDict [(''vehicleMake'', PyStr ''Ford'')]]])])))
        2023 (Some ''MI'')
       = ([Print KeyPlaceholderError], Inr (PyList []))
   \<and> snd (fetch_crash_data ''key''
        (\<lambda>r. Response 200 (Some (PyDict [(''Message'', PyStr ''No results'')])))
        2023 (Some ''MI''))
       = Inr (PyList [])"
proof -
  let ?first = "PyList [PyDict [(''vehicleMake'', PyStr ''Ford'')]]"
  let ?body = "PyDict [(''Count'', PyInt 1), (''Results'', PyList [?first])]"
  let ?net = "\<lambda>r::request. Response 200 (Some ?body)"
  have a: "''key'' \<noteq> ''YOUR_NHTSA_API_KEY''" by simp
  have b: "is_ascii ''MI''" by (simp add: is_ascii_def)
  have c: "len ?first = Inr 1" by simp
  have d: "?body = PyDict [(''Count'', PyInt 1), (''Results'', PyList [?first])]
      \<and> map_of [(''Count'', PyInt 1), (''Results'', PyList [?first])] ''Results''
          = Some (PyList (?first # []))" by simp
  note inst = fetch_never_raises [of "''key''" ?net 2023 "Some ''MI''"]
  from inst have placeholder: "fetch_crash_data ''YOUR_NHTSA_API_KEY'' ?net 2023 (Some ''MI'')
       = ([Print KeyPlaceholderError], Inr (PyList []))"
    by (elim conjE)
  from inst a b have rest:
    "filter is_HttpGet (fst (fetch_crash_data ''key'' ?net 2023 (Some ''MI'')))
       = [HttpGet (Get base_url (build_params ''key'' 2023 (state_code_of (Some ''MI''))))]
     \<and> (\<forall>kvs first others n. ?body = PyDict kvs
            \<and> map_of kvs ''Results'' = Some (PyList (first # others))
            \<and> len first = Inr n
          \<longrightarrow> snd (fetch_crash_data ''key'' ?net 2023 (Some ''MI'')) = Inr first)"
    by simp
  then have result: "snd (fetch_crash_data ''key'' ?net 2023 (Some ''MI'')) = Inr ?first"
    using c d by blast
  let ?other = "PyDict [(''Message'', PyStr ''No results'')]"
  let ?net' = "\<lambda>r::request. Response 200 (Some ?other)"
  have none: "\<nexists>kvs first others n. ?other = PyDict kvs
      \<and> map_of kvs ''Results'' = Some (PyList (first # others)) \<and> len first = Inr n"
    by simp
  from fetch_never_raises [of "''key''" ?net' 2023 "Some ''MI''"] a b
  have "(\<nexists>kvs first others n. ?other = PyDict kvs
          \<and> map_of kvs ''Results'' = Some (PyList (first # others)) \<and> len first = Inr n)
        \<longrightarrow> snd (fetch_crash_data ''key'' ?net' 2023 (Some ''MI'')) = Inr (PyList [])"
    by simp
  with none have empty: "snd (fetch_crash_data ''key'' ?net' 2023 (Some ''MI'')) = Inr (PyList [])"
    by (rule rev_mp)
  from a b c result rest placeholder empty show ?thesis
    by (intro conjI) simp_all
qed

text \<open>
  The claim as the specification words it fails: a body of an unexpected shape, whose
  first element is a string, does not give the empty list.
\<close>

theorem fetch_string_first_element_counterexample:
  "snd (fetch_crash_data ''key''
      (\<lambda>r. Response 200 (Some (PyDict [(''Results'', PyList [PyStr ''Access denied''])])))
      2023 (Some ''MI''))
    = Inr (PyStr ''Access denied'')"
  by (simp add: fetch_crash_data_result fetch_try_result)

section \<open>Properties of the region lookup\<close>

lemma STATE_CODE_MAP_distinct: "distinct (map fst STATE_CODE_MAP)"
  unfolding STATE_CODE_MAP_def by simp

lemma STATE_CODE_MAP_upper: "list_all (\<lambda>(name, code). upper name = name) STATE_CODE_MAP"
  unfolding STATE_CODE_MAP_def by (simp add: upper_def upper_char_def)

lemma STATE_CODE_MAP_key_upper:
  "(name, code) \<in> set STATE_CODE_MAP \<Longrightarrow> upper name = name"
  using STATE_CODE_MAP_upper by (auto simp: list_all_iff)

lemma state_code_of_known:
  assumes "s \<noteq> []" and "(name, code) \<in> set STATE_CODE_MAP" and "upper name = upper s"
  shows "state_code_of (Some s) = Some code"
proof -
  have "upper s = name"
    using assms(2,3) STATE_CODE_MAP_key_upper by metis
  then have "map_of STATE_CODE_MAP (upper s) = Some code"
    using assms(2) STATE_CODE_MAP_distinct by simp
  then show ?thesis
    using assms(1) by (simp add: state_code_of_def)
qed

lemma state_code_of_unknown:
  assumes "s \<noteq> []"
    and "\<nexists>name code. (name, code) \<in> set STATE_CODE_MAP \<and> upper name = upper s"
  shows "state_code_of (Some s) = Some (upper s)"
proof -
  have "map_of STATE_CODE_MAP (upper s) = None"
  proof (cases "map_of STATE_CODE_MAP (upper s)")
    case (Some code)
    then have "(upper s, code) \<in> set STATE_CODE_MAP"
      by (rule map_of_SomeD)
    moreover from this have "upper (upper s) = upper s"
      by (rule STATE_CODE_MAP_key_upper)
    ultimately show ?thesis
      using assms(2) by blast
  qed simp
  then show ?thesis
    using assms(1) by (simp add: state_code_of_def)
qed

text \<open>
  C6. The region code is a function of the region string alone. The table has 51
  entries. A region given as ASCII text that equals, letter case apart, a name of the
  table is replaced by that name's code; any other is passed on in upper case. So
  \<open>California\<close> gives \<open>CA\<close>, \<open>michigan\<close> gives \<open>MI\<close>, and \<open>ZZ\<close> stays \<open>ZZ\<close>.
\<close>

theorem region_resolution:
  "length STATE_CODE_MAP = 51
   \<and> (s \<noteq> [] \<and> is_ascii s \<longrightarrow>
        (\<forall>name code. (name, code) \<in> set STATE_CODE_MAP \<and> upper name = upper s
           \<longrightarrow> state_code_of (Some s) = Some code)
        \<and> ((\<nexists>name code. (name, code) \<in> set STATE_CODE_MAP \<and> upper name = upper s)
           \<longrightarrow> state_code_of (Some s) = Some (upper s)))
   \<and> state_code_of (Some ''California'') = Some ''CA''
   \<and> state_code_of (Some ''michigan'') = Some ''MI''
   \<and> state_code_of (Some ''ZZ'') = Some ''ZZ''"
proof -
  have "length STATE_CODE_MAP = 51"
    unfolding STATE_CODE_MAP_def by simp
  moreover have "state_code_of (Some ''California'') = Some ''CA''"
    by (simp add: state_code_of_def upper_def upper_char_def STATE_CODE_MAP_def)
  moreover have "state_code_of (Some ''michigan'') = Some ''MI''"
    by (simp add: state_code_of_def upper_def upper_char_def STATE_CODE_MAP_def)
  moreover have "state_code_of (Some ''ZZ'') = Some ''ZZ''"
    by (simp add: state_code_of_def upper_def upper_char_def STATE_CODE_MAP_def)
  ultimately show ?thesis
    using state_code_of_known [of s] state_code_of_unknown [of s] by blast
qed

theorem region_resolution_witness:
  "''new york'' \<noteq> [] \<and> is_ascii ''new york''
   \<and> (''NEW YORK'', ''NY'') \<in> set STATE_CODE_MAP \<and> upper ''NEW YORK'' = upper ''new york''
   \<and> state_code_of (Some ''new york'') = Some ''NY''"
proof -
  have a: "''new york'' \<noteq> [] \<and> is_ascii ''new york''"
    by (simp add: is_ascii_def)
  have b: "(''NEW YORK'', ''NY'') \<in> set STATE_CODE_MAP \<and> upper ''NEW YORK'' = upper ''new york''"
    by (simp add: STATE_CODE_MAP_def upper_def upper_char_def)
  show ?thesis
    using region_resolution [of "''new york''"] a b by blast
qed

section \<open>Properties of the aggregator\<close>

lemma tally_keys:
  "map fst (tally t k) = (if k \<in> set (map fst t) then map fst t else map fst t @ [k])"
  by (induction t) fastforce+

lemma tally_sum: "sum_list (map snd (tally t k)) = Suc (sum_list (map snd t))"
  by (induction t) auto

lemma tally_map:
  "distinct ks \<Longrightarrow>
   tally (map (\<lambda>k. (k, f k)) ks) x =
     (if x \<in> set ks then map (\<lambda>k. (k, if k = x then Suc (f k) else f k)) ks
      else map (\<lambda>k. (k, f k)) ks @ [(x, 1)])"
  by (induction ks) auto

lemma count_table_snoc: "count_table (xs @ [x]) = tally (count_table xs) x"
  by (simp add: count_table_def)

lemma count_table_sum: "sum_list (map snd (count_table xs)) = length xs"
  by (induction xs rule: rev_induct) (simp_all add: count_table_snoc tally_sum, simp add: count_table_def)

lemma count_table_keys:
  "set (map fst (count_table xs)) = set xs \<and> distinct (map fst (count_table xs))"
proof (induction xs rule: rev_induct)
  case Nil
  then show ?case by (simp add: count_table_def)
next
  case (snoc x xs)
  then show ?case
    by (auto simp: count_table_snoc tally_keys)
qed

lemma count_table_counts:
  "count_table xs = map (\<lambda>k. (k, count_list xs k)) (map fst (count_table xs))"
proof (induction xs rule: rev_induct)
  case Nil
  then show ?case by (simp add: count_table_def)
next
  case (snoc x xs)
  let ?K = "map fst (count_table xs)"
  have d: "distinct ?K" and s: "set ?K = set xs"
    using count_table_keys [of xs] by simp_all
  have t: "count_table (xs @ [x]) = tally (map (\<lambda>k. (k, count_list xs k)) ?K) x"
    using snoc by (simp add: count_table_snoc)
  have k: "map fst (count_table (xs @ [x])) = (if x \<in> set xs then ?K else ?K @ [x])"
    using s by (simp add: count_table_snoc tally_keys)
  have l: "count_table (xs @ [x]) =
      (if x \<in> set xs then map (\<lambda>k. (k, if k = x then Suc (count_list xs k) else count_list xs k)) ?K
       else map (\<lambda>k. (k, count_list xs k)) ?K @ [(x, 1)])"
    using s by (simp only: t tally_map [OF d])
  show ?case
  proof (cases "x \<in> set xs")
    case True
    then show ?thesis
      by (simp only: l k if_True) (simp add: o_def)
  next
    case False
    then have "map (\<lambda>k. (k, count_list xs k)) ?K = map (\<lambda>k. (k, count_list (xs @ [x]) k)) ?K"
      using s by (intro map_cong) auto
    with False show ?thesis
      by (simp only: l k if_False) (simp add: o_def)
  qed
qed





lemma stable_sort_values_sorts: "sorts_descending stable_sort_values"
  unfolding sorts_descending_def stable_sort_values_def
proof (intro allI conjI)
  fix t :: "(string \<times> nat) list"
  show "mset (rev (sort_key snd (rev t))) = mset t"
    by simp
  have "sorted (map snd (sort_key snd (rev t)))"
    by (rule sorted_sort_key)
  then have "sorted_wrt (\<lambda>a b. snd a \<le> snd b) (sort_key snd (rev t))"
    by (simp add: sorted_map)
  then show "sorted_wrt (\<lambda>a b. snd b \<le> snd a) (rev (sort_key snd (rev t)))"
    by (simp add: sorted_wrt_rev)
qed




lemma head_take: "\<exists>m. head xs n = take m xs"
  by (auto simp: head_def)

lemma length_head:
  "length (head xs n) = (if 0 \<le> n then min (nat n) (length xs) else length xs - nat (- n))"
  by (simp add: head_def min.commute)

lemma sum_list_take_le: "sum_list (map f (take m xs)) \<le> (sum_list (map f xs) :: nat)"
proof -
  have "sum_list (map f xs) = sum_list (map f (take m xs)) + sum_list (map f (drop m xs))"
    by (metis append_take_drop_id map_append sum_list_append)
  then show ?thesis by simp
qed

lemma sorted_same_sum:
  "mset r = mset t \<Longrightarrow> sum_list (map snd r) = (sum_list (map snd t) :: nat)"
  by (metis mset_map sum_mset_sum_list)

lemma top_brands_sorted:
  assumes "sorts_descending srt"
  shows "sorted_wrt (\<lambda>a b. snd b \<le> snd a) (snd (get_top_vehicle_brands srt makes limit))"
proof -
  have "sorted_wrt (\<lambda>a b. snd b \<le> snd a) (srt (count_table makes))"
    using assms by (simp add: sorts_descending_def)
  then have "sorted_wrt (\<lambda>a b. snd b \<le> snd a) (take m (srt (count_table makes)))" for m
    by (rule sorted_wrt_take)
  then show ?thesis
    by (simp add: get_top_vehicle_brands_def value_counts_def head_def)
qed

lemma value_counts_set:
  assumes "sorts_descending srt"
  shows "set (value_counts srt makes) = set (count_table makes)"
    and "length (value_counts srt makes) = card (set makes)"
proof -
  have m: "mset (value_counts srt makes) = mset (count_table makes)"
    using assms by (simp add: sorts_descending_def value_counts_def)
  show "set (value_counts srt makes) = set (count_table makes)"
    using m by (rule mset_eq_setD)
  have "length (value_counts srt makes) = length (count_table makes)"
    using m by (rule mset_eq_length)
  then show "length (value_counts srt makes) = card (set makes)"
    by (metis count_table_keys distinct_card length_map)
qed

lemma value_counts_entries:
  assumes "sorts_descending srt"
  shows "mset (value_counts srt makes)
     = mset (map (\<lambda>k. (k, count_list makes k)) (remdups makes))"
proof -
  let ?K = "map fst (count_table makes)"
  have k: "set ?K = set (remdups makes)" and d: "distinct ?K"
    using count_table_keys [of makes] by simp_all
  have "mset ?K = mset (remdups makes)"
    using set_eq_iff_mset_eq_distinct [OF d distinct_remdups, of makes] k by blast
  then have "mset (map (\<lambda>k. (k, count_list makes k)) ?K)
      = mset (map (\<lambda>k. (k, count_list makes k)) (remdups makes))"
    by (simp only: mset_map)
  moreover have "mset (map (\<lambda>k. (k, count_list makes k)) ?K) = mset (count_table makes)"
    by (rule arg_cong [where f = mset, OF count_table_counts [symmetric]])
  moreover have "mset (value_counts srt makes) = mset (count_table makes)"
    using assms by (simp add: sorts_descending_def value_counts_def)
  ultimately show ?thesis
    by (simp only:)
qed

lemma top_brands_head:
  assumes "sorts_descending srt"
  shows "snd (get_top_vehicle_brands srt makes limit) = head (value_counts srt makes) limit"
proof (cases "makes = []")
  case True
  have "mset (srt []) = mset []"
    using assms unfolding sorts_descending_def by blast
  then have "value_counts srt [] = []"
    by (simp add: value_counts_def count_table_def)
  then show ?thesis
    using True by (simp add: get_top_vehicle_brands_def head_def)
next
  case False
  then show ?thesis
    by (simp add: get_top_vehicle_brands_def)
qed

text \<open>
  C5, as the code has it. For every sort that rearranges into descending order, the
  full ranking \<open>value_counts\<close> holds one entry for each distinct value, the value with
  the number of times it stands in the input, in descending order of count. With a
  limit that is not negative, \<open>get_top_vehicle_brands\<close> returns the first \<open>limit\<close>
  entries of the ranking, which are exactly min(limit, number of distinct values)
  entries; with a negative limit, \<open>head\<close> drops the last \<open>-limit\<close> entries instead:
  the result is the ranking without its last \<open>-limit\<close> entries, as many as the number
  of distinct values less \<open>-limit\<close>, or none. For every limit the counts do not
  increase along the result, each is the number of times its value stands in the input
  (at least one), and their sum is at most the length of the input. The empty input
  gives the empty result.
\<close>

theorem top_brands_size_order_sum:
  assumes "sorts_descending srt"
  shows
    "(0 \<le> limit \<longrightarrow>
        int (length (snd (get_top_vehicle_brands srt makes limit)))
          = min limit (int (card (set makes)))
        \<and> snd (get_top_vehicle_brands srt makes limit)
          = take (nat limit) (value_counts srt makes))
     \<and> (limit < 0 \<longrightarrow>
        length (snd (get_top_vehicle_brands srt makes limit)) = card (set makes) - nat (- limit)
        \<and> snd (get_top_vehicle_brands srt makes limit)
          = take (length (value_counts srt makes) - nat (- limit)) (value_counts srt makes)
        \<and> (\<exists>dropped. length dropped = min (nat (- limit)) (card (set makes))
              \<and> snd (get_top_vehicle_brands srt makes limit) @ dropped
                = value_counts srt makes))
     \<and> length (value_counts srt makes) = card (set makes)
     \<and> mset (value_counts srt makes)
         = mset (map (\<lambda>k. (k, count_list makes k)) (remdups makes))
     \<and> sorted_wrt (\<lambda>a b. snd b \<le> snd a) (value_counts srt makes)
     \<and> sorted_wrt (\<lambda>a b. snd b \<le> snd a) (snd (get_top_vehicle_brands srt makes limit))
     \<and> sum_list (map snd (snd (get_top_vehicle_brands srt makes limit))) \<le> length makes
     \<and> (\<forall>(brand, n) \<in> set (snd (get_top_vehicle_brands srt makes limit)).
          n = count_list makes brand \<and> 0 < n)
     \<and> get_top_vehicle_brands srt [] limit = ([Print MakeSeriesEmpty], [])"
proof -
  let ?r = "snd (get_top_vehicle_brands srt makes limit)"
  let ?full = "value_counts srt makes"
  have r: "?r = head ?full limit"
    using assms by (rule top_brands_head)
  have full: "length ?full = card (set makes)"
    using assms by (rule value_counts_set(2))
  have len: "length ?r = (if 0 \<le> limit then min (nat limit) (card (set makes))
                          else card (set makes) - nat (- limit))"
    by (simp add: r length_head full)
  obtain m where m: "?r = take m ?full"
    using head_take [of ?full limit] r by auto
  have "sum_list (map snd ?r) \<le> sum_list (map snd ?full)"
    unfolding m by (rule sum_list_take_le)
  also have "\<dots> = sum_list (map snd (count_table makes))"
    using assms by (intro sorted_same_sum) (simp add: sorts_descending_def value_counts_def)
  finally have total: "sum_list (map snd ?r) \<le> length makes"
    by (simp add: count_table_sum)
  have entries: "\<forall>(brand, n) \<in> set ?r. n = count_list makes brand \<and> 0 < n"
  proof (clarify)
    fix brand n assume "(brand, n) \<in> set ?r"
    then have "(brand, n) \<in> set (count_table makes)"
      using value_counts_set(1) [OF assms, of makes] by (auto simp: m dest: in_set_takeD)
    moreover have "set (count_table makes)
        = set (map (\<lambda>k. (k, count_list makes k)) (map fst (count_table makes)))"
      by (rule arg_cong [where f = set, OF count_table_counts])
    ultimately have "(brand, n) \<in> set (map (\<lambda>k. (k, count_list makes k)) (map fst (count_table makes)))"
      by (simp only:)
    then have "n = count_list makes brand" and "brand \<in> set makes"
      using count_table_keys [of makes] by auto
    then show "n = count_list makes brand \<and> 0 < n"
      using count_list_0_iff [of makes brand] by auto
  qed
  have nonneg: "0 \<le> limit \<longrightarrow> int (length ?r) = min limit (int (card (set makes)))
      \<and> ?r = take (nat limit) ?full"
    unfolding len by (auto simp: min_def r head_def)
  have dropped: "\<exists>dropped. length dropped = min (nat (- limit)) (card (set makes))
      \<and> ?r @ dropped = ?full" if "limit < 0"
  proof -
    let ?d = "drop (length ?full - nat (- limit)) ?full"
    have "?r @ ?d = ?full"
      using that by (simp add: r head_def)
    moreover have "length ?d = min (nat (- limit)) (card (set makes))"
      by (simp add: full min_def)
    ultimately show ?thesis
      by blast
  qed
  have neg: "limit < 0 \<longrightarrow> length ?r = card (set makes) - nat (- limit)
      \<and> ?r = take (length ?full - nat (- limit)) ?full
      \<and> (\<exists>dropped. length dropped = min (nat (- limit)) (card (set makes))
            \<and> ?r @ dropped = ?full)"
    using dropped unfolding len by (simp add: r head_def)
  have empty: "get_top_vehicle_brands srt [] limit = ([Print MakeSeriesEmpty], [])"
    by (simp add: get_top_vehicle_brands_def)
  have ranking: "sorted_wrt (\<lambda>a b. snd b \<le> snd a) ?full"
    using assms by (simp add: sorts_descending_def value_counts_def)
  note counts = value_counts_entries [OF assms, of makes]
  note sorted = top_brands_sorted [OF assms, of makes limit]
  from nonneg neg full counts ranking sorted total entries empty show ?thesis
    by (intro conjI)
qed

theorem top_brands_size_order_sum_witness:
  "sorts_descending stable_sort_values
   \<and> (0::int) \<le> 2 \<and> (- 2::int) < 0
   \<and> value_counts stable_sort_values [''GM'', ''Ford'', ''Kia'', ''Ford'', ''Ford'', ''GM'']
       = [(''Ford'', 3), (''GM'', 2), (''Kia'', 1)]
   \<and> get_top_vehicle_brands stable_sort_values [''GM'', ''Ford'', ''Kia'', ''Ford'', ''Ford'', ''GM''] 2
       = ([], [(''Ford'', 3), (''GM'', 2)])
   \<and> int (length (snd (get_top_vehicle_brands stable_sort_values
          [''GM'', ''Ford'', ''Kia'', ''Ford'', ''Ford'', ''GM''] 2)))
       = min 2 (int (card (set [''GM'', ''Ford'', ''Kia'', ''Ford'', ''Ford'', ''GM''])))
   \<and> get_top_vehicle_brands stable_sort_values [''GM'', ''Ford'', ''Kia'', ''Ford'', ''Ford'', ''GM''] (- 2)
       = ([], [(''Ford'', 3)])
   \<and> snd (get_top_vehicle_brands stable_sort_values
          [''GM'', ''Ford'', ''Kia'', ''Ford'', ''Ford'', ''GM''] (- 2))
       = take (length (value_counts stable_sort_values
                 [''GM'', ''Ford'', ''Kia'', ''Ford'', ''Ford'', ''GM'']) - nat (- (- 2)))
           (value_counts stable_sort_values [''GM'', ''Ford'', ''Kia'', ''Ford'', ''Ford'', ''GM''])
   \<and> sum_list (map snd (snd (get_top_vehicle_brands stable_sort_values
          [''GM'', ''Ford'', ''Kia'', ''Ford'', ''Ford'', ''GM''] 2)))
       \<le> length [''GM'', ''Ford'', ''Kia'', ''Ford'', ''Ford'', ''GM'']"
proof -
  let ?makes = "[''GM'', ''Ford'', ''Kia'', ''Ford'', ''Ford'', ''GM'']"
  note first_two = top_brands_size_order_sum [OF stable_sort_values_sorts, of 2 ?makes]
  note less_two = top_brands_size_order_sum [OF stable_sort_values_sorts, of "- 2" ?makes]
  have p: "(0::int) \<le> 2" and n: "(- 2::int) < 0"
    by simp_all
  have v: "value_counts stable_sort_values ?makes = [(''Ford'', 3), (''GM'', 2), (''Kia'', 1)]"
    by (simp add: value_counts_def count_table_def stable_sort_values_def)
  have g: "get_top_vehicle_brands stable_sort_values ?makes 2 = ([], [(''Ford'', 3), (''GM'', 2)])"
    by (simp add: get_top_vehicle_brands_def value_counts_def count_table_def head_def
        stable_sort_values_def)
  have h: "get_top_vehicle_brands stable_sort_values ?makes (- 2) = ([], [(''Ford'', 3)])"
    by (simp add: get_top_vehicle_brands_def value_counts_def count_table_def head_def
        stable_sort_values_def)
  from first_two p have l: "int (length (snd (get_top_vehicle_brands stable_sort_values ?makes 2)))
       = min 2 (int (card (set ?makes)))"
    by blast
  from less_two n have d: "snd (get_top_vehicle_brands stable_sort_values ?makes (- 2))
       = take (length (value_counts stable_sort_values ?makes) - nat (- (- 2)))
           (value_counts stable_sort_values ?makes)"
    by blast
  from first_two have t: "sum_list (map snd (snd (get_top_vehicle_brands stable_sort_values ?makes 2)))
       \<le> length ?makes"
    by blast
  from stable_sort_values_sorts p n v g l h d t show ?thesis
    by (intro conjI)
qed

text \<open>
  The claim as the specification words it fails for a negative limit: of two distinct
  values and the limit -1 one entry is returned, which is not min(-1, 2).
\<close>

theorem top_brands_negative_limit_counterexample:
  "snd (get_top_vehicle_brands stable_sort_values [''Ford'', ''GM''] (- 1)) = [(''Ford'', 1)]
   \<and> int (length (snd (get_top_vehicle_brands stable_sort_values [''Ford'', ''GM''] (- 1))))
       \<noteq> min (- 1) (int (card (set [''Ford'', ''GM''])))"
  by (simp add: get_top_vehicle_brands_def value_counts_def count_table_def head_def
      stable_sort_values_def)







section \<open>Properties of the report and of main\<close>

lemma fetch_try_effects:
  "set (fst (fetch_try net req year state_code)) \<subseteq> range Print \<union> range HttpGet"
  by (auto simp: fetch_try_def Let_def split: reply.splits sum.splits option.splits
      pyobj.splits list.splits)

lemma fetch_crash_data_effects:
  "set (fst (fetch_crash_data api_key net year state)) \<subseteq> range Print \<union> range HttpGet"
proof (cases "api_key = ''YOUR_NHTSA_API_KEY''")
  case True
  then show ?thesis by (simp add: fetch_crash_data_def)
next
  case False
  obtain evs r where t: "fetch_try net (Get base_url (build_params api_key year (state_code_of state)))
      year (state_code_of state) = (evs, r)"
    by (cases "fetch_try net (Get base_url (build_params api_key year (state_code_of state)))
      year (state_code_of state)")
  have "set evs \<subseteq> range Print \<union> range HttpGet"
    using fetch_try_effects [of net "Get base_url (build_params api_key year (state_code_of state))"
        year "state_code_of state"] by (simp add: t)
  then show ?thesis
    using False by (cases r) (auto simp: fetch_crash_data_def Let_def t)
qed

lemma extract_vehicle_makes_effects:
  "set (fst (extract_vehicle_makes crash_data)) \<subseteq> range Print"
  by (auto simp: extract_vehicle_makes_def split: sum.splits)

lemma get_top_vehicle_brands_effects:
  "set (fst (get_top_vehicle_brands srt make_series top_n)) \<subseteq> range Print"
  by (auto simp: get_top_vehicle_brands_def)

lemma no_files_no_charts:
  "set evs \<subseteq> range Print \<union> range HttpGet \<Longrightarrow>
   filter is_WriteCsv evs = [] \<and> filter is_ShowChart evs = []"
  by (auto simp: filter_empty_conv)

lemma main_no_data:
  assumes "fetch_crash_data api_key net 2023 (Some ''MI'') = (fetched, Inr crash_data)"
    and "\<not> truthy crash_data"
  shows "main srt api_key net dir_exists =
     ((if \<not> dir_exists then [MakeDirs ''outputs'', Print (CreatedDirectory ''outputs'')] else [])
        @ fetched @ [Print NoCrashDataRetrieved], Inr ())"
  using assms by (simp add: main_def Let_def)

lemma main_report:
  assumes "fetch_crash_data api_key net 2023 (Some ''MI'') = (fetched, Inr crash_data)"
    and "truthy crash_data"
    and "extract_vehicle_makes crash_data = (extracted, Inr make_series)"
    and "make_series \<noteq> []"
    and "get_top_vehicle_brands srt make_series 10 = (counted, top_brands)"
  shows "fst (main srt api_key net dir_exists) =
     (if \<not> dir_exists then [MakeDirs ''outputs'', Print (CreatedDirectory ''outputs'')] else [])
       @ fetched @ extracted @ counted @ report_top_brands top_brands"
  using assms by (simp add: main_def Let_def)

text \<open>
  C8. Given no brand counts, the plot prints a warning and shows no chart, and the report
  of \<open>main\<close> prints a warning, writes no file and shows no chart. The stages pass
  emptiness on without raising: the extractor returns the empty list on the empty list
  of records, and the aggregator the empty result on the empty list. \<open>main\<close> itself,
  when the fetcher hands it nothing, stops after the fetch with a diagnostic, having
  written no file and shown no chart, and returns normally.
\<close>

theorem nothing_to_report:
  "plot_top_brands [] = [Print NoDataToPlot]
   \<and> report_top_brands [] = [Print NoTopBrands]
   \<and> extract_vehicle_makes (records []) = ([Print NoCrashDataProvided], Inr [])
   \<and> get_top_vehicle_brands srt [] limit = ([Print MakeSeriesEmpty], [])
   \<and> (\<forall>crash_data. snd (fetch_crash_data api_key net 2023 (Some ''MI'')) = Inr crash_data
          \<and> \<not> truthy crash_data \<longrightarrow>
        snd (main srt api_key net dir_exists) = Inr ()
        \<and> filter is_WriteCsv (fst (main srt api_key net dir_exists)) = []
        \<and> filter is_ShowChart (fst (main srt api_key net dir_exists)) = []
        \<and> last (fst (main srt api_key net dir_exists)) = Print NoCrashDataRetrieved)"
proof -
  have stop: "snd (main srt api_key net dir_exists) = Inr ()
        \<and> filter is_WriteCsv (fst (main srt api_key net dir_exists)) = []
        \<and> filter is_ShowChart (fst (main srt api_key net dir_exists)) = []
        \<and> last (fst (main srt api_key net dir_exists)) = Print NoCrashDataRetrieved"
    if fd: "snd (fetch_crash_data api_key net 2023 (Some ''MI'')) = Inr crash_data"
      and nt: "\<not> truthy crash_data" for crash_data
  proof -
    obtain fetched where f: "fetch_crash_data api_key net 2023 (Some ''MI'') = (fetched, Inr crash_data)"
      using fd by (cases "fetch_crash_data api_key net 2023 (Some ''MI'')") simp
    have "set fetched \<subseteq> range Print \<union> range HttpGet"
      using fetch_crash_data_effects [of api_key net 2023 "Some ''MI''"] by (simp add: f)
    then have "filter is_WriteCsv fetched = [] \<and> filter is_ShowChart fetched = []"
      by (rule no_files_no_charts)
    then show ?thesis
      by (simp add: main_no_data [OF f nt])
  qed
  have "plot_top_brands [] = [Print NoDataToPlot]"
    by (simp add: plot_top_brands_def)
  moreover have "report_top_brands [] = [Print NoTopBrands]"
    by (simp add: report_top_brands_def)
  moreover have "extract_vehicle_makes (records []) = ([Print NoCrashDataProvided], Inr [])"
    by (simp add: extract_vehicle_makes_def records_def)
  moreover have "get_top_vehicle_brands srt [] limit = ([Print MakeSeriesEmpty], [])"
    by (simp add: get_top_vehicle_brands_def)
  ultimately show ?thesis
    using stop by blast
qed

theorem nothing_to_report_witness:
  "snd (fetch_crash_data NHTSA_API_KEY (\<lambda>r. Raises ConnectionError) 2023 (Some ''MI''))
     = Inr (PyList [])
   \<and> \<not> truthy (PyList [])
   \<and> main stable_sort_values NHTSA_API_KEY (\<lambda>r. Raises ConnectionError) False
     = ([MakeDirs ''outputs'', Print (CreatedDirectory ''outputs''), Print KeyPlaceholderError,
         Print NoCrashDataRetrieved], Inr ())
   \<and> filter is_WriteCsv (fst (main stable_sort_values NHTSA_API_KEY
         (\<lambda>r. Raises ConnectionError) False)) = []"
proof -
  have a: "snd (fetch_crash_data NHTSA_API_KEY (\<lambda>r. Raises ConnectionError) 2023 (Some ''MI''))
     = Inr (PyList []) \<and> \<not> truthy (PyList [])"
    by (simp add: fetch_crash_data_def NHTSA_API_KEY_def)
  have b: "main stable_sort_values NHTSA_API_KEY (\<lambda>r. Raises ConnectionError) False
     = ([MakeDirs ''outputs'', Print (CreatedDirectory ''outputs''), Print KeyPlaceholderError,
         Print NoCrashDataRetrieved], Inr ())"
    by (simp add: main_def fetch_crash_data_def NHTSA_API_KEY_def Let_def)
  show ?thesis
    using nothing_to_report [of stable_sort_values 0 NHTSA_API_KEY "\<lambda>r. Raises ConnectionError" False]
      a b by blast
qed

lemma top_brands_length:
  assumes "sorts_descending srt"
  shows "length (snd (get_top_vehicle_brands srt makes limit))
     = (if 0 \<le> limit then min (nat limit) (card (set makes))
        else card (set makes) - nat (- limit))"
  by (simp add: get_top_vehicle_brands_def length_head value_counts_set(2) [OF assms])

lemma files_written_append:
  "files_written q (xs @ ys) = files_written q xs @ files_written q ys"
  by (induction q xs rule: files_written.induct) simp_all

lemma files_written_none:
  "set evs \<subseteq> range Print \<union> range HttpGet \<Longrightarrow> files_written q evs = []"
  by (induction q evs rule: files_written.induct) auto

lemma report_top_brands_files:
  "top_brands \<noteq> [] \<Longrightarrow>
   files_written q (report_top_brands top_brands)
     = [(csv_path, to_csv q top_brands ''Vehicle Brand'')]"
  by (simp add: report_top_brands_def plot_top_brands_def)

lemma main_writes_top_brands:
  assumes s: "sorts_descending srt"
    and fd: "snd (fetch_crash_data api_key net 2023 (Some ''MI'')) = Inr crash_data"
    and t: "truthy crash_data"
    and ex: "snd (extract_vehicle_makes crash_data) = Inr make_series"
    and n: "make_series \<noteq> []"
  shows "files_written q (fst (main srt api_key net dir_exists))
     = [(csv_path,
         to_csv q (snd (get_top_vehicle_brands srt make_series 10)) ''Vehicle Brand'')]"
proof -
  obtain fetched where f: "fetch_crash_data api_key net 2023 (Some ''MI'') = (fetched, Inr crash_data)"
    using fd by (cases "fetch_crash_data api_key net 2023 (Some ''MI'')") simp
  obtain extracted where e: "extract_vehicle_makes crash_data = (extracted, Inr make_series)"
    using ex by (cases "extract_vehicle_makes crash_data") simp
  obtain counted top_brands where g: "get_top_vehicle_brands srt make_series 10 = (counted, top_brands)"
    by (cases "get_top_vehicle_brands srt make_series 10")
  have "set fetched \<subseteq> range Print \<union> range HttpGet"
    using fetch_crash_data_effects [of api_key net 2023 "Some ''MI''"] by (simp add: f)
  then have 1: "files_written q fetched = []"
    by (rule files_written_none)
  have "set extracted \<subseteq> range Print"
    using extract_vehicle_makes_effects [of crash_data] by (simp add: e)
  then have "set extracted \<subseteq> range Print \<union> range HttpGet"
    by auto
  then have 2: "files_written q extracted = []"
    by (rule files_written_none)
  have "set counted \<subseteq> range Print"
    using get_top_vehicle_brands_effects [of srt make_series 10] by (simp add: g)
  then have "set counted \<subseteq> range Print \<union> range HttpGet"
    by auto
  then have 3: "files_written q counted = []"
    by (rule files_written_none)
  have "set make_series \<noteq> {}"
    using n by simp
  then have "0 < card (set make_series)"
    by (simp add: card_gt_0_iff)
  moreover have "length top_brands = min 10 (card (set make_series))"
    using top_brands_length [OF s, of make_series 10] by (simp add: g)
  ultimately have "top_brands \<noteq> []"
    by auto
  then have 4: "files_written q (report_top_brands top_brands)
      = [(csv_path, to_csv q top_brands ''Vehicle Brand'')]"
    by (rule report_top_brands_files)
  show ?thesis
    by (simp add: main_report [OF f t e n g] files_written_append 1 2 3 4 g)
qed

subsection \<open>Reading the file back\<close>

lemma read_plain:
  "plain f \<Longrightarrow> foldl read_char (InField, acc, fields, rows) f = (InField, acc @ f, fields, rows)"
  by (induction f arbitrary: acc) (auto simp: plain_def)

lemma read_quoted:
  "foldl read_char (InQuoted, acc, fields, rows)
     (concat (map (\<lambda>c. if c = CHR 0x22 then [c, c] else [c]) f))
   = (InQuoted, acc @ f, fields, rows)"
  by (induction f arbitrary: acc) auto

lemma not_quoted_plain: "readable q f \<Longrightarrow> \<not> needs_quote q f \<Longrightarrow> plain f"
  by (auto simp: readable_def needs_quote_def plain_def list_ex_iff list_all_iff)

lemma plain_readable: "plain f \<Longrightarrow> readable q f"
  by (auto simp: plain_def readable_def list_all_iff)

lemma readable_EveryNewline: "readable EveryNewline f"
  by (auto simp: readable_def needs_quote_def list_ex_iff)

lemma plain_append: "plain (a @ b) = (plain a \<and> plain b)"
  by (auto simp: plain_def)

text \<open>A field and the delimiter after it; a field and the end of its line.\<close>

lemma read_field_then_comma:
  assumes "readable q f"
  shows "foldl read_char (StartField, [], fields, rows) (csv_field q f @ CHR '','' # rest)
     = foldl read_char (StartField, [], fields @ [f], rows) rest"
proof (cases "needs_quote q f")
  case True
  then show ?thesis
    by (simp add: csv_field_def start_field_def read_quoted)
next
  case False
  with assms have p: "plain f" by (rule not_quoted_plain)
  show ?thesis
  proof (cases f)
    case Nil
    then show ?thesis using False by (simp add: csv_field_def start_field_def)
  next
    case (Cons c cs)
    with p have "plain cs" and "c \<noteq> CHR '',''" "c \<noteq> CHR 0x22" "c \<noteq> CHR 0x0A" "c \<noteq> CHR 0x0D"
      by (auto simp: plain_def)
    then show ?thesis
      using False Cons by (simp add: csv_field_def start_field_def read_plain)
  qed
qed

lemma read_field_then_newline:
  assumes "readable q f"
  shows "foldl read_char (StartField, [], fields, rows) (csv_field q f @ CHR 0x0A # rest)
     = foldl read_char (StartRecord, [], [], rows @ [fields @ [f]]) rest"
proof (cases "needs_quote q f")
  case True
  then show ?thesis
    by (simp add: csv_field_def start_field_def read_quoted)
next
  case False
  with assms have p: "plain f" by (rule not_quoted_plain)
  show ?thesis
  proof (cases f)
    case Nil
    then show ?thesis using False by (simp add: csv_field_def start_field_def)
  next
    case (Cons c cs)
    with p have "plain cs" and "c \<noteq> CHR '',''" "c \<noteq> CHR 0x22" "c \<noteq> CHR 0x0A" "c \<noteq> CHR 0x0D"
      by (auto simp: plain_def)
    then show ?thesis
      using False Cons by (simp add: csv_field_def start_field_def read_plain)
  qed
qed

lemma read_first_field_then_comma:
  assumes "readable q f"
  shows "foldl read_char (StartRecord, [], [], rows) (csv_field q f @ CHR '','' # rest)
     = foldl read_char (StartField, [], [f], rows) rest"
proof -
  have "foldl read_char (StartRecord, [], [], rows) (csv_field q f @ CHR '','' # rest)
      = foldl read_char (StartField, [], [], rows) (csv_field q f @ CHR '','' # rest)"
  proof (cases "needs_quote q f")
    case True
    then show ?thesis
      by (simp add: csv_field_def start_record_def)
  next
    case False
    with assms have p: "plain f" by (rule not_quoted_plain)
    show ?thesis
    proof (cases f)
      case Nil
      then show ?thesis using False by (simp add: csv_field_def start_record_def)
    next
      case (Cons c cs)
      with p have "c \<noteq> CHR 0x0A" "c \<noteq> CHR 0x0D"
        by (auto simp: plain_def)
      then show ?thesis
        using False Cons by (simp add: csv_field_def start_record_def)
    qed
  qed
  also have "\<dots> = foldl read_char (StartField, [], [] @ [f], rows) rest"
    using assms by (rule read_field_then_comma)
  finally show ?thesis
    by simp
qed

text \<open>A row of two fields, then every row of a file of such rows.\<close>

lemma read_row:
  assumes "readable q a" and "readable q b"
  shows "foldl read_char (StartRecord, [], [], rows) (writerow q [a, b] @ rest)
     = foldl read_char (StartRecord, [], [], rows @ [[a, b]]) rest"
  using read_first_field_then_comma [OF assms(1), of rows "csv_field q b @ CHR 0x0A # rest"]
    read_field_then_newline [OF assms(2), of "[a]" rows rest]
  by (simp add: writerow_def)

lemma read_rows:
  assumes "\<forall>(a, b) \<in> set ps. readable q a \<and> readable q b"
  shows "foldl read_char (StartRecord, [], [], rows) (writerows q (map (\<lambda>(a, b). [a, b]) ps))
     = (StartRecord, [], [], rows @ map (\<lambda>(a, b). [a, b]) ps)"
  using assms
proof (induction ps arbitrary: rows)
  case Nil
  then show ?case by (simp add: writerows_def)
next
  case (Cons p ps)
  obtain a b where p: "p = (a, b)" by (cases p)
  have "readable q a" "readable q b" using Cons.prems p by auto
  then have "foldl read_char (StartRecord, [], [], rows)
       (writerow q [a, b] @ writerows q (map (\<lambda>(a, b). [a, b]) ps))
     = foldl read_char (StartRecord, [], [], rows @ [[a, b]]) (writerows q (map (\<lambda>(a, b). [a, b]) ps))"
    by (rule read_row)
  also have "\<dots> = (StartRecord, [], [], (rows @ [[a, b]]) @ map (\<lambda>(a, b). [a, b]) ps)"
    using Cons.prems by (intro Cons.IH) auto
  finally show ?case
    by (simp add: p writerows_def)
qed

lemma csv_reader_writerows:
  assumes "\<forall>(a, b) \<in> set ps. readable q a \<and> readable q b"
  shows "csv_reader (writerows q (map (\<lambda>(a, b). [a, b]) ps)) = map (\<lambda>(a, b). [a, b]) ps"
  using read_rows [OF assms, of "[]"] by (simp add: csv_reader_def)

text \<open>A count is written in digits.\<close>

lemma digit_char_plain: "plain [digit_char d]"
proof -
  have "digit_char d \<in> set ''0123456789abcdef''"
    unfolding digit_char_def by (rule nth_mem) simp
  then show ?thesis
    by (auto simp: plain_def)
qed

lemma str_nat_plain: "plain (str_nat n)"
proof (induction n rule: str_nat.induct)
  case (1 n)
  show ?case
  proof (cases "n < 10")
    case True
    then show ?thesis
      by (subst str_nat.simps) (simp add: digit_char_plain)
  next
    case False
    then show ?thesis
      using 1 by (subst str_nat.simps) (simp add: plain_append digit_char_plain)
  qed
qed

lemma csv_reader_to_csv:
  assumes "readable q index_label" and "\<forall>(brand, n) \<in> set series. readable q brand"
  shows "csv_reader (to_csv q series index_label)
     = [index_label, count_column] # map (\<lambda>(brand, n). [brand, str_nat n]) series"
proof -
  let ?ps = "(index_label, count_column) # map (\<lambda>(brand, n). (brand, str_nat n)) series"
  have c: "readable q count_column"
    by (simp add: readable_def count_column_def)
  have "\<forall>(a, b) \<in> set ?ps. readable q a \<and> readable q b"
    using assms c by (auto simp: str_nat_plain plain_readable)
  then have "csv_reader (writerows q (map (\<lambda>(a, b). [a, b]) ?ps)) = map (\<lambda>(a, b). [a, b]) ?ps"
    by (rule csv_reader_writerows)
  moreover have "map (\<lambda>(a, b). [a, b]) ?ps
      = [index_label, count_column] # map (\<lambda>(brand, n). [brand, str_nat n]) series"
    by (induction series) auto
  ultimately show ?thesis
    unfolding to_csv_def by (simp only:)
qed

lemma to_csv_lines:
  "to_csv q series index_label
     = writerow q [index_label, count_column]
       @ concat (map (\<lambda>(brand, n). writerow q [brand, str_nat n]) series)"
proof -
  have eq: "map (writerow q) (map (\<lambda>(brand, n). [brand, str_nat n]) series)
      = map (\<lambda>(brand, n). writerow q [brand, str_nat n]) series"
    by (induction series) auto
  have "to_csv q series index_label
      = writerow q [index_label, count_column]
        @ concat (map (writerow q) (map (\<lambda>(brand, n). [brand, str_nat n]) series))"
    unfolding to_csv_def writerows_def by (simp only: list.map concat.simps)
  then show ?thesis
    by (simp only: eq)
qed

text \<open>
  C9, as the code has it. For every non-empty sequence of brand counts the report writes
  one file. Its text is the header line, the label \<open>Vehicle Brand\<close> and the name of the
  counts, followed by one written row for each entry, brand first and count second, in
  the order of the sequence: nothing is sorted again. Read back, the file is a header
  row whose first column is \<open>Vehicle Brand\<close> followed by exactly one row for each
  entry, in that order, with the brand and the count as they were: for every sequence
  when the writer quotes on every newline character, and with the writer as documented
  whenever every brand that holds a carriage return also holds a comma, a double quote
  or a line feed. In \<open>main\<close> the sequence is the result of the aggregator, and the
  file is the only one written.
\<close>

theorem report_file_reads_back:
  "(top_brands \<noteq> [] \<longrightarrow>
      filter is_WriteCsv (report_top_brands top_brands)
        = [WriteCsv csv_path top_brands ''Vehicle Brand'']
      \<and> files_written q (report_top_brands top_brands)
        = [(csv_path, to_csv q top_brands ''Vehicle Brand'')])
   \<and> to_csv q top_brands ''Vehicle Brand''
       = writerow q [''Vehicle Brand'', count_column]
         @ concat (map (\<lambda>(brand, n). writerow q [brand, str_nat n]) top_brands)
   \<and> csv_reader (to_csv EveryNewline top_brands ''Vehicle Brand'')
       = [''Vehicle Brand'', count_column] # map (\<lambda>(brand, n). [brand, str_nat n]) top_brands
   \<and> ((\<forall>(brand, n) \<in> set top_brands.
          CHR 0x0D \<in> set brand \<longrightarrow> needs_quote LineTerminatorOnly brand) \<longrightarrow>
        csv_reader (to_csv LineTerminatorOnly top_brands ''Vehicle Brand'')
          = [''Vehicle Brand'', count_column]
            # map (\<lambda>(brand, n). [brand, str_nat n]) top_brands)
   \<and> (\<forall>crash_data make_series.
        sorts_descending srt
        \<and> snd (fetch_crash_data api_key net 2023 (Some ''MI'')) = Inr crash_data
        \<and> truthy crash_data
        \<and> snd (extract_vehicle_makes crash_data) = Inr make_series
        \<and> make_series \<noteq> [] \<longrightarrow>
        files_written q (fst (main srt api_key net dir_exists))
          = [(csv_path,
              to_csv q (snd (get_top_vehicle_brands srt make_series 10)) ''Vehicle Brand'')])"
proof -
  have label: "readable q' ''Vehicle Brand''" for q'
    by (simp add: readable_def)
  have every: "csv_reader (to_csv EveryNewline top_brands ''Vehicle Brand'')
      = [''Vehicle Brand'', count_column] # map (\<lambda>(brand, n). [brand, str_nat n]) top_brands"
    using label by (rule csv_reader_to_csv) (simp add: readable_EveryNewline)
  have documented: "csv_reader (to_csv LineTerminatorOnly top_brands ''Vehicle Brand'')
      = [''Vehicle Brand'', count_column] # map (\<lambda>(brand, n). [brand, str_nat n]) top_brands"
    if "\<forall>(brand, n) \<in> set top_brands.
          CHR 0x0D \<in> set brand \<longrightarrow> needs_quote LineTerminatorOnly brand"
    using label that by (intro csv_reader_to_csv) (auto simp: readable_def)
  have call: "filter is_WriteCsv (report_top_brands top_brands)
        = [WriteCsv csv_path top_brands ''Vehicle Brand'']" if "top_brands \<noteq> []"
    using that by (simp add: report_top_brands_def plot_top_brands_def)
  show ?thesis
    using call report_top_brands_files [of top_brands q]
      to_csv_lines [of q top_brands "''Vehicle Brand''"]
      every documented main_writes_top_brands [of srt api_key net _ _ q dir_exists]
    by blast
qed

theorem report_file_reads_back_witness:
  "[(''Ford'', 12), ([CHR ''S'', CHR '','', CHR 0x22, CHR 0x0D, CHR ''x''], 3::nat)] \<noteq> []
   \<and> needs_quote LineTerminatorOnly [CHR ''S'', CHR '','', CHR 0x22, CHR 0x0D, CHR ''x'']
   \<and> CHR 0x0D \<notin> set ''Ford''
   \<and> files_written LineTerminatorOnly (report_top_brands
        [(''Ford'', 12), ([CHR ''S'', CHR '','', CHR 0x22, CHR 0x0D, CHR ''x''], 3)])
       = [(''outputs/top_vehicle_brands.csv'',
           ''Vehicle Brand,count'' @ [CHR 0x0A] @ ''Ford,12'' @ [CHR 0x0A]
           @ [CHR 0x22, CHR ''S'', CHR '','', CHR 0x22, CHR 0x22, CHR 0x0D, CHR ''x'', CHR 0x22]
           @ '',3'' @ [CHR 0x0A])]
   \<and> csv_reader (''Vehicle Brand,count'' @ [CHR 0x0A] @ ''Ford,12'' @ [CHR 0x0A]
           @ [CHR 0x22, CHR ''S'', CHR '','', CHR 0x22, CHR 0x22, CHR 0x0D, CHR ''x'', CHR 0x22]
           @ '',3'' @ [CHR 0x0A])
       = [[''Vehicle Brand'', ''count''], [''Ford'', ''12''],
          [[CHR ''S'', CHR '','', CHR 0x22, CHR 0x0D, CHR ''x''], ''3'']]
   \<and> sorts_descending stable_sort_values
   \<and> snd (fetch_crash_data ''key''
        (\<lambda>r. Response 200 (Some (PyDict [(''Results'', PyList [records
           [[(''vehicleMake'', PyStr ''Ford'')], [(''vehicleMake'', PyStr ''ford'')],
            [(''vehicleMake'', PyStr '''')], [], [(''vehicleMake'', PyStr ''GM'')]]])])))
        2023 (Some ''MI''))
       = Inr (records
           [[(''vehicleMake'', PyStr ''Ford'')], [(''vehicleMake'', PyStr ''ford'')],
            [(''vehicleMake'', PyStr '''')], [], [(''vehicleMake'', PyStr ''GM'')]])
   \<and> snd (extract_vehicle_makes (records
           [[(''vehicleMake'', PyStr ''Ford'')], [(''vehicleMake'', PyStr ''ford'')],
            [(''vehicleMake'', PyStr '''')], [], [(''vehicleMake'', PyStr ''GM'')]]))
       = Inr [''Ford'', ''ford'', ''GM'']
   \<and> files_written LineTerminatorOnly (fst (main stable_sort_values ''key''
        (\<lambda>r. Response 200 (Some (PyDict [(''Results'', PyList [records
           [[(''vehicleMake'', PyStr ''Ford'')], [(''vehicleMake'', PyStr ''ford'')],
            [(''vehicleMake'', PyStr '''')], [], [(''vehicleMake'', PyStr ''GM'')]]])])))
        True))
       = [(''outputs/top_vehicle_brands.csv'',
           ''Vehicle Brand,count'' @ [CHR 0x0A] @ ''Ford,1'' @ [CHR 0x0A]
           @ ''ford,1'' @ [CHR 0x0A] @ ''GM,1'' @ [CHR 0x0A])]"
proof -
  let ?rs = "[[(''vehicleMake'', PyStr ''Ford'')], [(''vehicleMake'', PyStr ''ford'')],
            [(''vehicleMake'', PyStr '''')], [], [(''vehicleMake'', PyStr ''GM'')]]"
  let ?net = "\<lambda>r::request. Response 200 (Some (PyDict [(''Results'', PyList [records ?rs])]))"
  let ?tb = "[(''Ford'', 12), ([CHR ''S'', CHR '','', CHR 0x22, CHR 0x0D, CHR ''x''], 3::nat)]"
  let ?written = "''Vehicle Brand,count'' @ [CHR 0x0A] @ ''Ford,12'' @ [CHR 0x0A]
           @ [CHR 0x22, CHR ''S'', CHR '','', CHR 0x22, CHR 0x22, CHR 0x0D, CHR ''x'', CHR 0x22]
           @ '',3'' @ [CHR 0x0A]"
  note inst = report_file_reads_back
    [of ?tb LineTerminatorOnly stable_sort_values "''key''" ?net True]
  have n: "?tb \<noteq> []"
    by simp
  have q1: "needs_quote LineTerminatorOnly [CHR ''S'', CHR '','', CHR 0x22, CHR 0x0D, CHR ''x'']"
    by (simp add: needs_quote_def)
  have q2: "CHR 0x0D \<notin> set ''Ford''"
    by simp
  from q1 q2 have all: "\<forall>(brand, n) \<in> set ?tb.
      CHR 0x0D \<in> set brand \<longrightarrow> needs_quote LineTerminatorOnly brand"
    by simp
  have written: "to_csv LineTerminatorOnly ?tb ''Vehicle Brand'' = ?written"
    by (simp add: to_csv_def writerows_def writerow_def csv_field_def needs_quote_def
        count_column_def str_nat.simps digit_char_def)
  have f: "snd (fetch_crash_data ''key'' ?net 2023 (Some ''MI'')) = Inr (records ?rs)"
    by (simp add: fetch_crash_data_def fetch_try_def raise_for_status_def Let_def records_def)
  have t: "truthy (records ?rs)"
    by (simp add: records_def)
  have e: "snd (extract_vehicle_makes (records ?rs)) = Inr [''Ford'', ''ford'', ''GM'']"
    by (simp add: extract_vehicle_makes_def records_def strip_def lstrip_def rstrip_def isspace_def)
  have g: "snd (get_top_vehicle_brands stable_sort_values [''Ford'', ''ford'', ''GM''] 10)
      = [(''Ford'', 1), (''ford'', 1), (''GM'', 1)]"
    by (simp add: get_top_vehicle_brands_def value_counts_def count_table_def head_def
        stable_sort_values_def)
  have c: "to_csv LineTerminatorOnly [(''Ford'', 1), (''ford'', 1), (''GM'', 1)] ''Vehicle Brand''
      = ''Vehicle Brand,count'' @ [CHR 0x0A] @ ''Ford,1'' @ [CHR 0x0A]
             @ ''ford,1'' @ [CHR 0x0A] @ ''GM,1'' @ [CHR 0x0A]"
    by (simp add: to_csv_def writerows_def writerow_def csv_field_def needs_quote_def
        count_column_def str_nat.simps digit_char_def)
  from inst n have "files_written LineTerminatorOnly (report_top_brands ?tb)
      = [(csv_path, to_csv LineTerminatorOnly ?tb ''Vehicle Brand'')]"
    by blast
  then have r: "files_written LineTerminatorOnly (report_top_brands ?tb)
      = [(''outputs/top_vehicle_brands.csv'', ?written)]"
    by (simp only: written csv_path_def)
  from inst all have "csv_reader (to_csv LineTerminatorOnly ?tb ''Vehicle Brand'')
      = [''Vehicle Brand'', count_column] # map (\<lambda>(brand, n). [brand, str_nat n]) ?tb"
    by blast
  then have b: "csv_reader ?written = [[''Vehicle Brand'', ''count''], [''Ford'', ''12''],
          [[CHR ''S'', CHR '','', CHR 0x22, CHR 0x0D, CHR ''x''], ''3'']]"
    by (simp add: written count_column_def str_nat.simps digit_char_def)
  from inst have "files_written LineTerminatorOnly (fst (main stable_sort_values ''key'' ?net True))
      = [(csv_path,
          to_csv LineTerminatorOnly
            (snd (get_top_vehicle_brands stable_sort_values [''Ford'', ''ford'', ''GM''] 10))
            ''Vehicle Brand'')]"
    using stable_sort_values_sorts f t e by blast
  then have m: "files_written LineTerminatorOnly (fst (main stable_sort_values ''key'' ?net True))
      = [(''outputs/top_vehicle_brands.csv'',
           ''Vehicle Brand,count'' @ [CHR 0x0A] @ ''Ford,1'' @ [CHR 0x0A]
           @ ''ford,1'' @ [CHR 0x0A] @ ''GM,1'' @ [CHR 0x0A])]"
    by (simp only: g c csv_path_def)
  from n q1 q2 r b stable_sort_values_sorts f e m show ?thesis
    by (intro conjI) simp_all
qed

text \<open>
  The claim as the specification words it fails with the writer as documented: a brand
  that holds a carriage return, and no comma, double quote or line feed, is written
  without quotes, and the file reads back with two rows for that one entry. Such a brand
  reaches the report from the response: trimming takes white space off the ends only.
\<close>

theorem report_carriage_return_counterexample:
  "snd (extract_vehicle_makes (records [[(''vehicleMake'', PyStr [CHR ''A'', CHR 0x0D, CHR ''B''])]]))
     = Inr [[CHR ''A'', CHR 0x0D, CHR ''B'']]
   \<and> snd (get_top_vehicle_brands stable_sort_values [[CHR ''A'', CHR 0x0D, CHR ''B'']] 10)
     = [([CHR ''A'', CHR 0x0D, CHR ''B''], 1)]
   \<and> files_written LineTerminatorOnly (report_top_brands [([CHR ''A'', CHR 0x0D, CHR ''B''], 1)])
     = [(''outputs/top_vehicle_brands.csv'',
         ''Vehicle Brand,count'' @ [CHR 0x0A, CHR ''A'', CHR 0x0D, CHR ''B''] @ '',1'' @ [CHR 0x0A])]
   \<and> csv_reader
        (''Vehicle Brand,count'' @ [CHR 0x0A, CHR ''A'', CHR 0x0D, CHR ''B''] @ '',1'' @ [CHR 0x0A])
     = [[''Vehicle Brand'', ''count''], [''A''], [''B'', ''1'']]"
  by (simp add: extract_vehicle_makes_def records_def strip_def lstrip_def rstrip_def isspace_def
      get_top_vehicle_brands_def value_counts_def count_table_def head_def stable_sort_values_def
      report_top_brands_def plot_top_brands_def csv_path_def
      csv_reader_def to_csv_def writerows_def writerow_def csv_field_def needs_quote_def
      count_column_def str_nat.simps digit_char_def start_record_def start_field_def)

end
